theory Spec2Isabelle
  imports Main
begin

section \<open>Demand paging simulator (main.cpp): constants and tables\<close>

text \<open>
  The preprocessor constants of main.cpp. C++ \<open>int\<close> values are modelled as \<open>int\<close>:
  every value the routines store is a trace entry, a frame index, a bit, or the fault
  counter, which grows by at most one per reference.
\<close>

definition MAX_NUM_PAGES :: int where
  "MAX_NUM_PAGES = 1024"

definition MAX_PAGE_FRAMES :: int where
  "MAX_PAGE_FRAMES = 48"

definition PROC_POOL_SIZE :: int where
  "PROC_POOL_SIZE = 500"

definition INVALID_BIT :: int where
  "INVALID_BIT = 0"

definition VALID_BIT :: int where
  "VALID_BIT = 1"

text \<open>
  \<open>int page_table[MAX_NUM_PAGES][3]\<close>: column 0 is the frame of the page, column 1 its
  valid bit, column 2 the auxiliary column. \<open>int frame_table[MAX_PAGE_FRAMES][2]\<close>:
  column 0 is the page held by the frame, column 1 the auxiliary column (the counter of
  RU). An array is a function from the row index to the row; every access of the model
  first compares the index with the bound of the array, and an access outside it, which
  C++ leaves undefined, ends the run with the error value that names the array and index.
  \<open>upd t i row\<close> is the array \<open>t\<close> after an assignment to its row \<open>i\<close>.
\<close>

record page_row =
  frame_no :: int
  valid_bit :: int
  page_aux :: int

record frame_row =
  page_no :: int
  frame_aux :: int

definition upd :: "(int \<Rightarrow> 'a) \<Rightarrow> int \<Rightarrow> 'a \<Rightarrow> (int \<Rightarrow> 'a)" where
  "upd t i row = (\<lambda>j. if j = i then row else t j)"

datatype error = PageTableOutOfBounds int | FrameTableOutOfBounds int

definition page_ok :: "int \<Rightarrow> bool" where
  "page_ok p = (0 \<le> p \<and> p < MAX_NUM_PAGES)"

definition frame_ok :: "int \<Rightarrow> bool" where
  "frame_ok f = (0 \<le> f \<and> f < MAX_PAGE_FRAMES)"

text \<open>
  The state every routine works on. \<open>free_frame_list\<close> is the \<open>vector<int>\<close>, kept as
  a stack: the head of the list is \<open>back()\<close>, \<open>pop_back\<close> is \<open>tl\<close>, \<open>push_back x\<close> is
  \<open>x #\<close>, so the vector read front to back is \<open>rev\<close> of the list. \<open>fault_rate\<close> is the
  local counter each routine prints. \<open>evictions\<close> is an observation added by the model,
  no variable of the source: it lists the values of \<open>freeframe\<close> chosen by the
  replacement policy (not those taken from the free list), in order.
\<close>

record tables =
  page_table :: "int \<Rightarrow> page_row"
  frame_table :: "int \<Rightarrow> frame_row"
  free_frame_list :: "int list"
  fault_rate :: int
  evictions :: "int list"

definition isInMemory :: "(int \<Rightarrow> frame_row) \<Rightarrow> int \<Rightarrow> int \<Rightarrow> int" where
  "isInMemory ft page reference = (if page_no (ft page) = reference then 1 else 0)"

text \<open>
  The loop \<open>while (!addresses.eof()) { addresses >> referenceString; ... }\<close> of each
  routine: the body runs once per reference, and the first out-of-bounds access ends it.
\<close>

fun run :: "('s \<Rightarrow> int \<Rightarrow> error + 's) \<Rightarrow> error + 's \<Rightarrow> int list \<Rightarrow> error + 's" where
  "run step r [] = r"
| "run step (Inl e) (x # xs) = Inl e"
| "run step (Inr s) (x # xs) = run step (step s x) xs"

text \<open>What a finished run shows: \<open>final f r\<close> reads \<open>f\<close> off the state the run ended in.\<close>

definition final :: "('s \<Rightarrow> 'a) \<Rightarrow> error + 's \<Rightarrow> 'a option" where
  "final f r = (case r of Inl e \<Rightarrow> None | Inr s \<Rightarrow> Some (f s))"

definition faults :: "error + ('a tables_scheme) \<Rightarrow> int option" where
  "faults r = final fault_rate r"

section \<open>FIFO\<close>

record fifo_state = tables +
  FIFOSelection :: int

text \<open>\<open>FIFOSelection--; if (FIFOSelection == 0) FIFOSelection = MAX_PAGE_FRAMES - 1;\<close>\<close>

definition FIFO_advance :: "int \<Rightarrow> int" where
  "FIFO_advance sel = (let sel' = sel - 1 in if sel' = 0 then MAX_PAGE_FRAMES - 1 else sel')"

text \<open>The branch \<open>page_table[reference][1] == INVALID_BIT\<close>.\<close>

definition FIFO_invalid :: "fifo_state \<Rightarrow> int \<Rightarrow> error + fifo_state" where
  "FIFO_invalid s reference =
    (let (freeframe, s1) =
       (if free_frame_list s = []
        then (FIFOSelection s,
              s\<lparr>evictions := evictions s @ [FIFOSelection s],
                FIFOSelection := FIFO_advance (FIFOSelection s)\<rparr>)
        else (hd (free_frame_list s), s\<lparr>free_frame_list := tl (free_frame_list s)\<rparr>));
         s2 = s1\<lparr>page_table := upd (page_table s1) reference
                 ((page_table s1 reference)\<lparr>frame_no := freeframe, valid_bit := VALID_BIT\<rparr>)\<rparr>
     in if \<not> frame_ok freeframe then Inl (FrameTableOutOfBounds freeframe)
        else Inr (s2\<lparr>frame_table := upd (frame_table s2) freeframe
                       ((frame_table s2 freeframe)\<lparr>page_no := reference\<rparr>),
                     fault_rate := fault_rate s2 + 1\<rparr>))"

text \<open>The branch \<open>!isInMemory(frame_table, page_table[reference][0], reference)\<close>.\<close>

definition FIFO_stale :: "fifo_state \<Rightarrow> int \<Rightarrow> error + fifo_state" where
  "FIFO_stale s reference =
    (let freeframe = FIFOSelection s;
         s1 = s\<lparr>evictions := evictions s @ [freeframe],
                FIFOSelection := FIFO_advance (FIFOSelection s)\<rparr>;
         oldframe = frame_no (page_table s1 reference)
     in if \<not> frame_ok freeframe then Inl (FrameTableOutOfBounds freeframe)
        else
          let oldpage = page_no (frame_table s1 freeframe)
          in if oldpage \<noteq> - 1 \<and> \<not> page_ok oldpage then Inl (PageTableOutOfBounds oldpage)
             else
               let s2 = (if oldpage \<noteq> - 1
                         then s1\<lparr>page_table := upd (page_table s1) oldpage
                                 ((page_table s1 oldpage)\<lparr>valid_bit := INVALID_BIT\<rparr>)\<rparr>
                         else s1);
                   s3 = s2\<lparr>page_table := upd (page_table s2) reference
                           ((page_table s2 reference)\<lparr>frame_no := freeframe, valid_bit := VALID_BIT\<rparr>)\<rparr>;
                   s4 = s3\<lparr>frame_table := upd (frame_table s3) freeframe
                           ((frame_table s3 freeframe)\<lparr>page_no := reference\<rparr>)\<rparr>
               in if \<not> frame_ok oldframe then Inl (FrameTableOutOfBounds oldframe)
                  else Inr (s4\<lparr>frame_table := upd (frame_table s4) oldframe
                                 ((frame_table s4 oldframe)\<lparr>page_no := - 1\<rparr>),
                               fault_rate := fault_rate s4 + 1\<rparr>))"

definition FIFO_step :: "fifo_state \<Rightarrow> int \<Rightarrow> error + fifo_state" where
  "FIFO_step s reference =
    (if \<not> page_ok reference then Inl (PageTableOutOfBounds reference)
     else if valid_bit (page_table s reference) = INVALID_BIT then FIFO_invalid s reference
     else if \<not> frame_ok (frame_no (page_table s reference))
       then Inl (FrameTableOutOfBounds (frame_no (page_table s reference)))
     else if isInMemory (frame_table s) (frame_no (page_table s reference)) reference = 0
       then FIFO_stale s reference
     else Inr s)"

definition FIFO :: "(int \<Rightarrow> page_row) \<Rightarrow> (int \<Rightarrow> frame_row) \<Rightarrow> int list \<Rightarrow> int list
    \<Rightarrow> error + fifo_state" where
  "FIFO pt ft fl trace =
     run FIFO_step
       (Inr \<lparr>page_table = pt, frame_table = ft, free_frame_list = fl, fault_rate = 0,
             evictions = [], FIFOSelection = MAX_PAGE_FRAMES - 1\<rparr>) trace"

section \<open>RU: the LRU and MRU routine\<close>

text \<open>
  \<open>frame_table[p][1] = frame_table[p][1]++;\<close> The right operand is evaluated first
  (C++17, [expr.ass]): it yields the old value and stores the old value plus one; the
  assignment then stores the value of the right operand, the old value, again.
\<close>

definition postinc_self_assign :: "int \<Rightarrow> int" where
  "postinc_self_assign x = (let old = x; incremented = x + 1; assigned = old in assigned)"

text \<open>\<open>for (p = 0; p < MAX_PAGE_FRAMES; ++p) { if (p == skip) continue; ... }\<close>\<close>

definition increment_others :: "(int \<Rightarrow> frame_row) \<Rightarrow> int \<Rightarrow> (int \<Rightarrow> frame_row)" where
  "increment_others ft skip =
     fold (\<lambda>p t. if p = skip then t
                  else upd t p ((t p)\<lparr>frame_aux := postinc_self_assign (frame_aux (t p))\<rparr>))
       [0..MAX_PAGE_FRAMES - 1] ft"

text \<open>
  The two scans over column 1 of the frame table; \<open>freeframe\<close> starts at 0. The branch
  \<open>type == "MRU"\<close> keeps the first frame whose counter is greater than all before it, the
  other branch (LRU) the first frame whose counter is smaller than all before it.
\<close>

definition RU_scan :: "string \<Rightarrow> (int \<Rightarrow> frame_row) \<Rightarrow> int" where
  "RU_scan type ft =
     (if type = ''MRU''
      then snd (fold (\<lambda>k (mx, freeframe).
                        if frame_aux (ft k) > mx then (frame_aux (ft k), k) else (mx, freeframe))
                  [1..MAX_PAGE_FRAMES - 1] (frame_aux (ft 0), 0))
      else snd (fold (\<lambda>k (mn, freeframe).
                        if frame_aux (ft k) < mn then (frame_aux (ft k), k) else (mn, freeframe))
                  [1..MAX_PAGE_FRAMES - 1] (frame_aux (ft 0), 0)))"

definition RU_invalid :: "string \<Rightarrow> tables \<Rightarrow> int \<Rightarrow> error + tables" where
  "RU_invalid type s reference =
    (let s0 = s\<lparr>fault_rate := fault_rate s + 1\<rparr>;
         (freeframe, s1) =
           (if free_frame_list s0 = []
            then (RU_scan type (frame_table s0),
                  s0\<lparr>evictions := evictions s0 @ [RU_scan type (frame_table s0)]\<rparr>)
            else (hd (free_frame_list s0), s0\<lparr>free_frame_list := tl (free_frame_list s0)\<rparr>));
         s2 = s1\<lparr>page_table := upd (page_table s1) reference
                 ((page_table s1 reference)\<lparr>frame_no := freeframe, valid_bit := VALID_BIT\<rparr>)\<rparr>
     in if \<not> frame_ok freeframe then Inl (FrameTableOutOfBounds freeframe)
        else Inr (s2\<lparr>frame_table :=
                       increment_others
                         (upd (frame_table s2) freeframe
                            ((frame_table s2 freeframe)\<lparr>page_no := reference\<rparr>))
                         freeframe\<rparr>))"

definition RU_stale :: "string \<Rightarrow> tables \<Rightarrow> int \<Rightarrow> error + tables" where
  "RU_stale type s reference =
    (let s0 = s\<lparr>fault_rate := fault_rate s + 1\<rparr>;
         freeframe = RU_scan type (frame_table s0);
         s1 = s0\<lparr>evictions := evictions s0 @ [freeframe]\<rparr>;
         oldframe = frame_no (page_table s1 reference)
     in if \<not> frame_ok freeframe then Inl (FrameTableOutOfBounds freeframe)
        else
          let oldpage = page_no (frame_table s1 freeframe)
          in if \<not> page_ok oldpage then Inl (PageTableOutOfBounds oldpage)
             else
               let s2 = s1\<lparr>page_table := upd (page_table s1) oldpage
                           ((page_table s1 oldpage)\<lparr>valid_bit := INVALID_BIT\<rparr>)\<rparr>;
                   s3 = s2\<lparr>page_table := upd (page_table s2) reference
                           ((page_table s2 reference)\<lparr>frame_no := freeframe, valid_bit := VALID_BIT\<rparr>)\<rparr>;
                   s4 = s3\<lparr>frame_table := upd (frame_table s3) freeframe
                           ((frame_table s3 freeframe)\<lparr>page_no := reference\<rparr>)\<rparr>;
                   s5 = s4\<lparr>free_frame_list := oldframe # free_frame_list s4\<rparr>
               in Inr (s5\<lparr>frame_table := increment_others (frame_table s5) freeframe\<rparr>))"

text \<open>
  The statements after the branches, run on every reference:
  \<open>frame_table[page_table[reference][0]][1] = 0;\<close> and the loop over the other frames.
\<close>

definition RU_touch :: "tables \<Rightarrow> int \<Rightarrow> error + tables" where
  "RU_touch s reference =
    (let f = frame_no (page_table s reference)
     in if \<not> frame_ok f then Inl (FrameTableOutOfBounds f)
        else Inr (s\<lparr>frame_table :=
                      increment_others
                        (upd (frame_table s) f ((frame_table s f)\<lparr>frame_aux := 0\<rparr>)) f\<rparr>))"

definition RU_step :: "string \<Rightarrow> tables \<Rightarrow> int \<Rightarrow> error + tables" where
  "RU_step type s reference =
    (if \<not> page_ok reference then Inl (PageTableOutOfBounds reference)
     else if valid_bit (page_table s reference) = INVALID_BIT
       then (case RU_invalid type s reference of
               Inl e \<Rightarrow> Inl e | Inr s' \<Rightarrow> RU_touch s' reference)
     else if \<not> frame_ok (frame_no (page_table s reference))
       then Inl (FrameTableOutOfBounds (frame_no (page_table s reference)))
     else if isInMemory (frame_table s) (frame_no (page_table s reference)) reference = 0
       then (case RU_stale type s reference of
               Inl e \<Rightarrow> Inl e | Inr s' \<Rightarrow> RU_touch s' reference)
     else RU_touch s reference)"

definition RU :: "(int \<Rightarrow> page_row) \<Rightarrow> (int \<Rightarrow> frame_row) \<Rightarrow> int list \<Rightarrow> string \<Rightarrow> int list
    \<Rightarrow> error + tables" where
  "RU pt ft fl type trace =
     run (RU_step type)
       (Inr \<lparr>page_table = pt, frame_table = ft, free_frame_list = fl, fault_rate = 0,
             evictions = []\<rparr>) trace"

section \<open>OPT and identifyPageToRemove\<close>

record opt_state = tables +
  reference_string :: "int list"

text \<open>
  The inner loop of identifyPageToRemove from index \<open>j\<close> on: \<open>futureref[i]\<close> keeps its
  initial value unless some \<open>reference_string.at(j)\<close> equals the page of frame \<open>i\<close>; the
  first such \<open>j\<close> is stored and the loop left.
\<close>

fun inner_loop :: "int list \<Rightarrow> int \<Rightarrow> int \<Rightarrow> int \<Rightarrow> int" where
  "inner_loop [] page j fut = fut"
| "inner_loop (x # xs) page j fut = (if x = page then j else inner_loop xs page (j + 1) fut)"

definition futureref :: "(int \<Rightarrow> frame_row) \<Rightarrow> int list \<Rightarrow> int \<Rightarrow> int" where
  "futureref ft rs i = inner_loop rs (page_no (ft i)) 0 (PROC_POOL_SIZE + 100)"

definition identifyPageToRemove :: "(int \<Rightarrow> frame_row) \<Rightarrow> int list \<Rightarrow> int" where
  "identifyPageToRemove ft rs =
     snd (fold (\<lambda>i (max_turns, victim).
                  if futureref ft rs i > max_turns then (futureref ft rs i, i)
                  else (max_turns, victim))
            [0..MAX_PAGE_FRAMES - 1] (- 1, 0))"

definition OPT_invalid :: "opt_state \<Rightarrow> int \<Rightarrow> error + opt_state" where
  "OPT_invalid s reference =
    (let (freeframe, s1) =
       (if free_frame_list s = []
        then (identifyPageToRemove (frame_table s) (reference_string s),
              s\<lparr>evictions := evictions s
                   @ [identifyPageToRemove (frame_table s) (reference_string s)]\<rparr>)
        else (hd (free_frame_list s), s\<lparr>free_frame_list := tl (free_frame_list s)\<rparr>));
         s2 = s1\<lparr>page_table := upd (page_table s1) reference
                 ((page_table s1 reference)\<lparr>frame_no := freeframe, valid_bit := VALID_BIT\<rparr>)\<rparr>
     in if \<not> frame_ok freeframe then Inl (FrameTableOutOfBounds freeframe)
        else Inr (s2\<lparr>frame_table := upd (frame_table s2) freeframe
                       ((frame_table s2 freeframe)\<lparr>page_no := reference\<rparr>),
                     fault_rate := fault_rate s2 + 1\<rparr>))"

definition OPT_stale :: "opt_state \<Rightarrow> int \<Rightarrow> error + opt_state" where
  "OPT_stale s reference =
    (let freeframe = identifyPageToRemove (frame_table s) (reference_string s);
         s1 = s\<lparr>evictions := evictions s @ [freeframe]\<rparr>;
         oldframe = frame_no (page_table s1 reference)
     in if \<not> frame_ok freeframe then Inl (FrameTableOutOfBounds freeframe)
        else
          let oldpage = page_no (frame_table s1 freeframe)
          in if \<not> page_ok oldpage then Inl (PageTableOutOfBounds oldpage)
             else
               let s2 = s1\<lparr>page_table := upd (page_table s1) oldpage
                           ((page_table s1 oldpage)\<lparr>valid_bit := INVALID_BIT\<rparr>)\<rparr>;
                   s3 = s2\<lparr>page_table := upd (page_table s2) reference
                           ((page_table s2 reference)\<lparr>frame_no := freeframe, valid_bit := VALID_BIT\<rparr>)\<rparr>;
                   s4 = s3\<lparr>frame_table := upd (frame_table s3) freeframe
                           ((frame_table s3 freeframe)\<lparr>page_no := reference\<rparr>)\<rparr>
               in Inr (s4\<lparr>free_frame_list := oldframe # free_frame_list s4,
                            fault_rate := fault_rate s4 + 1\<rparr>))"

text \<open>
  \<open>if (reference_string.size() > 0) reference_string.erase(reference_string.begin());\<close>
\<close>

definition erase_first :: "opt_state \<Rightarrow> opt_state" where
  "erase_first s =
     (if reference_string s \<noteq> [] then s\<lparr>reference_string := tl (reference_string s)\<rparr> else s)"

definition OPT_step :: "opt_state \<Rightarrow> int \<Rightarrow> error + opt_state" where
  "OPT_step s reference =
    (if \<not> page_ok reference then Inl (PageTableOutOfBounds reference)
     else if valid_bit (page_table s reference) = INVALID_BIT
       then (case OPT_invalid s reference of
               Inl e \<Rightarrow> Inl e | Inr s' \<Rightarrow> Inr (erase_first s'))
     else if \<not> frame_ok (frame_no (page_table s reference))
       then Inl (FrameTableOutOfBounds (frame_no (page_table s reference)))
     else if isInMemory (frame_table s) (frame_no (page_table s reference)) reference = 0
       then (case OPT_stale s reference of
               Inl e \<Rightarrow> Inl e | Inr s' \<Rightarrow> Inr (erase_first s'))
     else Inr (erase_first s))"

text \<open>
  \<open>oracle\<close> is the vector \<open>reference_string\<close> as the first loop of OPT fills it;
  \<open>trace\<close> is the sequence of references the second loop reads.
\<close>

definition OPT :: "(int \<Rightarrow> page_row) \<Rightarrow> (int \<Rightarrow> frame_row) \<Rightarrow> int list \<Rightarrow> int list \<Rightarrow> int list
    \<Rightarrow> error + opt_state" where
  "OPT pt ft fl oracle trace =
     run OPT_step
       (Inr \<lparr>page_table = pt, frame_table = ft, free_frame_list = fl, fault_rate = 0,
             evictions = [], reference_string = oracle\<rparr>) trace"

section \<open>RAN\<close>

text \<open>
  \<open>rand()\<close> is an input of the model: \<open>rnd k\<close> is the value of the \<open>k\<close>-th call the
  routine makes, and \<open>rand_calls\<close> counts the calls made. \<open>RAND_MAX\<close> comes from the C
  library and is a parameter. For \<open>ref == "RAN"\<close> the source computes
  \<open>(double) rand() / (RAND_MAX+1.0) * (MAX_PAGE_FRAMES)\<close> and truncates it to \<open>int\<close>; the
  model takes the exact quotient, which the double computation yields when
  \<open>RAND_MAX + 1\<close> is a power of two of at most 31 bits. Otherwise the source computes
  \<open>rand() % MAX_PAGE_FRAMES\<close>, on a value that is never negative.
\<close>

record ran_state = tables +
  rand_calls :: nat

definition random_frame :: "string \<Rightarrow> int \<Rightarrow> int \<Rightarrow> int" where
  "random_frame ref rand_max r =
     (if ref = ''RAN'' then (r * MAX_PAGE_FRAMES) div (rand_max + 1) else r mod MAX_PAGE_FRAMES)"

definition RAN_invalid :: "int \<Rightarrow> (nat \<Rightarrow> int) \<Rightarrow> string \<Rightarrow> ran_state \<Rightarrow> int \<Rightarrow> error + ran_state" where
  "RAN_invalid rand_max rnd ref s reference =
    (let (freeframe, s1) =
       (if free_frame_list s = []
        then (random_frame ref rand_max (rnd (rand_calls s)),
              s\<lparr>evictions := evictions s @ [random_frame ref rand_max (rnd (rand_calls s))],
                rand_calls := Suc (rand_calls s)\<rparr>)
        else (hd (free_frame_list s), s\<lparr>free_frame_list := tl (free_frame_list s)\<rparr>));
         s2 = s1\<lparr>page_table := upd (page_table s1) reference
                 ((page_table s1 reference)\<lparr>frame_no := freeframe, valid_bit := VALID_BIT\<rparr>)\<rparr>
     in if \<not> frame_ok freeframe then Inl (FrameTableOutOfBounds freeframe)
        else Inr (s2\<lparr>frame_table := upd (frame_table s2) freeframe
                       ((frame_table s2 freeframe)\<lparr>page_no := reference\<rparr>),
                     fault_rate := fault_rate s2 + 1\<rparr>))"

definition RAN_stale :: "int \<Rightarrow> (nat \<Rightarrow> int) \<Rightarrow> string \<Rightarrow> ran_state \<Rightarrow> int \<Rightarrow> error + ran_state" where
  "RAN_stale rand_max rnd ref s reference =
    (let freeframe = random_frame ref rand_max (rnd (rand_calls s));
         s1 = s\<lparr>evictions := evictions s @ [freeframe], rand_calls := Suc (rand_calls s)\<rparr>;
         oldframe = frame_no (page_table s1 reference)
     in if \<not> frame_ok freeframe then Inl (FrameTableOutOfBounds freeframe)
        else
          let oldpage = page_no (frame_table s1 freeframe)
          in if \<not> page_ok oldpage then Inl (PageTableOutOfBounds oldpage)
             else
               let s2 = s1\<lparr>page_table := upd (page_table s1) oldpage
                           ((page_table s1 oldpage)\<lparr>valid_bit := INVALID_BIT\<rparr>)\<rparr>;
                   s3 = s2\<lparr>page_table := upd (page_table s2) reference
                           ((page_table s2 reference)\<lparr>frame_no := freeframe, valid_bit := VALID_BIT\<rparr>)\<rparr>;
                   s4 = s3\<lparr>frame_table := upd (frame_table s3) freeframe
                           ((frame_table s3 freeframe)\<lparr>page_no := reference\<rparr>)\<rparr>
               in Inr (s4\<lparr>free_frame_list := oldframe # free_frame_list s4,
                            fault_rate := fault_rate s4 + 1\<rparr>))"

definition RAN_step :: "int \<Rightarrow> (nat \<Rightarrow> int) \<Rightarrow> string \<Rightarrow> ran_state \<Rightarrow> int \<Rightarrow> error + ran_state" where
  "RAN_step rand_max rnd ref s reference =
    (if \<not> page_ok reference then Inl (PageTableOutOfBounds reference)
     else if valid_bit (page_table s reference) = INVALID_BIT
       then RAN_invalid rand_max rnd ref s reference
     else if \<not> frame_ok (frame_no (page_table s reference))
       then Inl (FrameTableOutOfBounds (frame_no (page_table s reference)))
     else if isInMemory (frame_table s) (frame_no (page_table s reference)) reference = 0
       then RAN_stale rand_max rnd ref s reference
     else Inr s)"

definition RAN :: "int \<Rightarrow> (nat \<Rightarrow> int) \<Rightarrow> (int \<Rightarrow> page_row) \<Rightarrow> (int \<Rightarrow> frame_row) \<Rightarrow> int list
    \<Rightarrow> string \<Rightarrow> int list \<Rightarrow> error + ran_state" where
  "RAN rand_max rnd pt ft fl ref trace =
     run (RAN_step rand_max rnd ref)
       (Inr \<lparr>page_table = pt, frame_table = ft, free_frame_list = fl, fault_rate = 0,
             evictions = [], rand_calls = 0\<rparr>) trace"

section \<open>main: the tables each routine is started on\<close>

text \<open>
  The two initialisation loops main runs before each routine write every row of both
  arrays, so each routine starts on these tables whatever the routine before left.
\<close>

definition fresh_page_table :: "int \<Rightarrow> page_row" where
  "fresh_page_table =
     (\<lambda>i. \<lparr>frame_no = INVALID_BIT, valid_bit = INVALID_BIT, page_aux = INVALID_BIT\<rparr>)"

definition fresh_frame_table :: "int \<Rightarrow> frame_row" where
  "fresh_frame_table = (\<lambda>i. \<lparr>page_no = 0, frame_aux = INVALID_BIT\<rparr>)"

text \<open>
  \<open>vector<int> free_frame_list(MAX_PAGE_FRAMES);\<close> constructs a vector of
  \<open>MAX_PAGE_FRAMES\<close> zeros. The third initialisation loop,
  \<open>for (i = 0; i < MAX_PAGE_FRAMES; i++) free_frame_list.push_back(i);\<close>, appends to
  it. Every routine takes the vector by value, so main's own vector is never popped:
  before the \<open>k\<close>-th routine (1 is FIFO, 2 LRU, 3 MRU, 4 OPT, 5 RAN, 6 RAN2) the loop has
  run \<open>k\<close> times on the constructed vector.
\<close>

definition constructed_free_frame_list :: "int list" where
  "constructed_free_frame_list = replicate (nat MAX_PAGE_FRAMES) 0"

definition fill_free_frame_list :: "int list \<Rightarrow> int list" where
  "fill_free_frame_list fl = fold (\<lambda>i v. i # v) [0..MAX_PAGE_FRAMES - 1] fl"

definition main_free_frame_list :: "nat \<Rightarrow> int list" where
  "main_free_frame_list k = (fill_free_frame_list ^^ k) constructed_free_frame_list"

text \<open>
  reference_string.txt holds \<open>tokens\<close>, one per line, each line ended by a newline (as
  createReferenceString writes them). The loop on \<open>!addresses.eof()\<close> reads every token
  and then runs once more: the last extraction meets the end of the file, fails, and
  leaves \<open>referenceString\<close> as it was (empty, read as 0 by \<open>atoi\<close>, when the file is
  empty). The first loop of OPT reads \<open>PROC_POOL_SIZE\<close> times in the same way.
\<close>

definition file_references :: "int list \<Rightarrow> int list" where
  "file_references tokens = tokens @ [if tokens = [] then 0 else last tokens]"

definition file_oracle :: "int list \<Rightarrow> int list" where
  "file_oracle tokens =
     take (nat PROC_POOL_SIZE)
       (tokens @ replicate (nat PROC_POOL_SIZE) (if tokens = [] then 0 else last tokens))"

definition main_FIFO :: "int list \<Rightarrow> error + fifo_state" where
  "main_FIFO tokens =
     FIFO fresh_page_table fresh_frame_table (main_free_frame_list 1) (file_references tokens)"

definition main_LRU :: "int list \<Rightarrow> error + tables" where
  "main_LRU tokens =
     RU fresh_page_table fresh_frame_table (main_free_frame_list 2) ''LRU''
       (file_references tokens)"

definition main_MRU :: "int list \<Rightarrow> error + tables" where
  "main_MRU tokens =
     RU fresh_page_table fresh_frame_table (main_free_frame_list 3) ''MRU''
       (file_references tokens)"

definition main_OPT :: "int list \<Rightarrow> error + opt_state" where
  "main_OPT tokens =
     OPT fresh_page_table fresh_frame_table (main_free_frame_list 4) (file_oracle tokens)
       (file_references tokens)"

definition main_RAN :: "int \<Rightarrow> (nat \<Rightarrow> int) \<Rightarrow> int list \<Rightarrow> error + ran_state" where
  "main_RAN rand_max rnd tokens =
     RAN rand_max rnd fresh_page_table fresh_frame_table (main_free_frame_list 5) ''RAN''
       (file_references tokens)"

definition main_RAN2 :: "int \<Rightarrow> (nat \<Rightarrow> int) \<Rightarrow> int list \<Rightarrow> error + ran_state" where
  "main_RAN2 rand_max rnd tokens =
     RAN rand_max rnd fresh_page_table fresh_frame_table (main_free_frame_list 6) ''RAN2''
       (file_references tokens)"

section \<open>Predicates and abbreviations of the proofs\<close>

text \<open>
  \<open>aux_zero ft\<close>: column 1 of every row of the frame table is 0. \<open>zero_aux occ\<close> is
  the frame table whose column 0 is \<open>occ\<close> and whose column 1 is 0 throughout.
\<close>

definition aux_zero :: "(int \<Rightarrow> frame_row) \<Rightarrow> bool" where
  "aux_zero ft = (\<forall>f. frame_ok f \<longrightarrow> frame_aux (ft f) = 0)"

definition zero_aux :: "(int \<Rightarrow> int) \<Rightarrow> (int \<Rightarrow> frame_row)" where
  "zero_aux occ = (\<lambda>f. \<lparr>page_no = occ f, frame_aux = 0\<rparr>)"

text \<open>
  The tables index each other within bounds: every page row names a frame index of the
  frame table, every frame row a page index of the page table, and the free list holds
  frame indices. For FIFO a frame row may also hold -1, the mark FIFO writes, and the
  cursor lies between 1 and \<open>MAX_PAGE_FRAMES - 1\<close>.
\<close>

definition tables_ok :: "'a tables_scheme \<Rightarrow> bool" where
  "tables_ok s =
     ((\<forall>p. page_ok p \<longrightarrow> frame_ok (frame_no (page_table s p))) \<and>
      (\<forall>f. frame_ok f \<longrightarrow> page_ok (page_no (frame_table s f))) \<and>
      (\<forall>f \<in> set (free_frame_list s). frame_ok f))"

definition fifo_ok :: "fifo_state \<Rightarrow> bool" where
  "fifo_ok s =
     ((\<forall>p. page_ok p \<longrightarrow> frame_ok (frame_no (page_table s p))) \<and>
      (\<forall>f. frame_ok f \<longrightarrow> page_no (frame_table s f) = - 1 \<or> page_ok (page_no (frame_table s f))) \<and>
      (\<forall>f \<in> set (free_frame_list s). frame_ok f) \<and>
      1 \<le> FIFOSelection s \<and> FIFOSelection s < MAX_PAGE_FRAMES)"

section \<open>Derived rules: one rule per branch of each routine\<close>

lemma upd_same: "upd t i row i = row" by (simp add: upd_def)
lemma upd_other: "j \<noteq> i \<Longrightarrow> upd t i row j = t j" by (simp add: upd_def)
lemma upd_apply: "upd t i row j = (if j = i then row else t j)" by (simp add: upd_def)
lemma upd_upd: "upd (upd t i a) i b = upd t i b" by (rule ext) (simp add: upd_def)
lemma upd_triv: "upd t i (t i) = t" by (rule ext) (simp add: upd_def)

lemma fold_ignore: "(\<And>p t. f p t = t) \<Longrightarrow> fold f xs a = a"
  by (induction xs) simp_all

lemma increment_others_noop: "increment_others ft skip = ft"
  unfolding increment_others_def
  by (rule fold_ignore) (simp add: postinc_self_assign_def upd_triv)

lemma fresh_frame_table_zero_aux: "fresh_frame_table = zero_aux (\<lambda>i. 0)"
  by (simp add: fresh_frame_table_def zero_aux_def INVALID_BIT_def)

lemma zero_aux_store: "upd (zero_aux occ) f ((zero_aux occ f)\<lparr>page_no := r\<rparr>) = zero_aux (upd occ f r)"
  by (rule ext) (simp add: zero_aux_def upd_def)

lemma zero_aux_store0:
  "upd (zero_aux occ) f ((zero_aux occ f)\<lparr>page_no := r, frame_aux := 0\<rparr>) = zero_aux (upd occ f r)"
  by (rule ext) (simp add: zero_aux_def upd_def)

lemma zero_aux_touch: "upd (zero_aux occ) f ((zero_aux occ f)\<lparr>frame_aux := 0\<rparr>) = zero_aux occ"
  by (rule ext) (simp add: zero_aux_def upd_def)

lemma page_no_zero_aux: "page_no (zero_aux occ f) = occ f"
  by (simp add: zero_aux_def)

lemma frame_aux_zero_aux: "frame_aux (zero_aux occ f) = 0"
  by (simp add: zero_aux_def)

lemma aux_zero_zero_aux: "aux_zero (zero_aux occ)"
  by (simp add: aux_zero_def zero_aux_def)

lemma scan_gt_zero:
  "\<forall>k \<in> set ks. frame_aux (ft k) = 0 \<Longrightarrow>
   fold (\<lambda>k (mx, freeframe). if frame_aux (ft k) > mx then (frame_aux (ft k), k) else (mx, freeframe)) ks (0, 0) = (0, 0)"
  by (induction ks) simp_all

lemma scan_lt_zero:
  "\<forall>k \<in> set ks. frame_aux (ft k) = 0 \<Longrightarrow>
   fold (\<lambda>k (mn, freeframe). if frame_aux (ft k) < mn then (frame_aux (ft k), k) else (mn, freeframe)) ks (0, 0) = (0, 0)"
  by (induction ks) simp_all

lemma RU_scan_zero: "aux_zero ft \<Longrightarrow> RU_scan type ft = 0"
proof -
  assume a: "aux_zero ft"
  have 0: "frame_aux (ft 0) = 0" using a by (simp add: aux_zero_def frame_ok_def MAX_PAGE_FRAMES_def)
  have ks: "\<forall>k \<in> set [1..MAX_PAGE_FRAMES - 1]. frame_aux (ft k) = 0"
    using a by (simp add: aux_zero_def frame_ok_def)
  show ?thesis
    by (simp add: RU_scan_def 0 scan_gt_zero[OF ks] scan_lt_zero[OF ks])
qed

lemma frame_ok_0: "frame_ok 0" by (simp add: frame_ok_def MAX_PAGE_FRAMES_def)

subsection \<open>RU on a frame table whose counters are 0\<close>

lemma RU_oob: "\<not> page_ok r \<Longrightarrow> RU_step type s r = Inl (PageTableOutOfBounds r)"
  by (simp add: RU_step_def)

lemma RU_pop:
  "page_ok r \<Longrightarrow> valid_bit (pt r) = 0 \<Longrightarrow> frame_ok f \<Longrightarrow>
   RU_step type \<lparr>page_table = pt, frame_table = zero_aux occ, free_frame_list = f # fl,
                fault_rate = n, evictions = ev\<rparr> r =
   Inr \<lparr>page_table = upd pt r ((pt r)\<lparr>frame_no := f, valid_bit := 1\<rparr>),
        frame_table = zero_aux (upd occ f r), free_frame_list = fl, fault_rate = n + 1,
        evictions = ev\<rparr>"
  by (simp add: RU_step_def RU_invalid_def RU_touch_def Let_def INVALID_BIT_def VALID_BIT_def
      increment_others_noop upd_same upd_upd zero_aux_store0)

lemma RU_evict:
  "page_ok r \<Longrightarrow> valid_bit (pt r) = 0 \<Longrightarrow>
   RU_step type \<lparr>page_table = pt, frame_table = zero_aux occ, free_frame_list = [],
                fault_rate = n, evictions = ev\<rparr> r =
   Inr \<lparr>page_table = upd pt r ((pt r)\<lparr>frame_no := 0, valid_bit := 1\<rparr>),
        frame_table = zero_aux (upd occ 0 r), free_frame_list = [], fault_rate = n + 1,
        evictions = ev @ [0]\<rparr>"
  by (simp add: RU_step_def RU_invalid_def RU_touch_def Let_def INVALID_BIT_def VALID_BIT_def
      increment_others_noop upd_same upd_upd zero_aux_store0 RU_scan_zero aux_zero_zero_aux frame_ok_0)

lemma RU_hit:
  "page_ok r \<Longrightarrow> valid_bit (pt r) \<noteq> 0 \<Longrightarrow> frame_ok (frame_no (pt r)) \<Longrightarrow>
   occ (frame_no (pt r)) = r \<Longrightarrow>
   RU_step type \<lparr>page_table = pt, frame_table = zero_aux occ, free_frame_list = fl,
                fault_rate = n, evictions = ev\<rparr> r =
   Inr \<lparr>page_table = pt, frame_table = zero_aux occ, free_frame_list = fl, fault_rate = n,
        evictions = ev\<rparr>"
  by (simp add: RU_step_def RU_touch_def isInMemory_def Let_def INVALID_BIT_def VALID_BIT_def
      increment_others_noop zero_aux_touch page_no_zero_aux)

lemma RU_stale_push:
  "page_ok r \<Longrightarrow> valid_bit (pt r) \<noteq> 0 \<Longrightarrow> frame_ok (frame_no (pt r)) \<Longrightarrow>
   occ (frame_no (pt r)) \<noteq> r \<Longrightarrow> page_ok (occ 0) \<Longrightarrow>
   RU_step type \<lparr>page_table = pt, frame_table = zero_aux occ, free_frame_list = fl,
                fault_rate = n, evictions = ev\<rparr> r =
   Inr \<lparr>page_table =
          upd (upd pt (occ 0) ((pt (occ 0))\<lparr>valid_bit := 0\<rparr>))
            r ((pt r)\<lparr>frame_no := 0, valid_bit := 1\<rparr>),
        frame_table = zero_aux (upd occ 0 r),
        free_frame_list = frame_no (pt r) # fl, fault_rate = n + 1, evictions = ev @ [0]\<rparr>"
  by (simp add: RU_step_def RU_stale_def RU_touch_def isInMemory_def Let_def INVALID_BIT_def
      VALID_BIT_def increment_others_noop upd_same upd_upd upd_apply zero_aux_store0
      RU_scan_zero aux_zero_zero_aux frame_ok_0 page_no_zero_aux)


subsection \<open>FIFO on a frame table whose auxiliary column is 0\<close>

lemma FIFO_oob: "\<not> page_ok r \<Longrightarrow> FIFO_step s r = Inl (PageTableOutOfBounds r)"
  by (simp add: FIFO_step_def)

lemma FIFO_pop:
  "page_ok r \<Longrightarrow> valid_bit (pt r) = 0 \<Longrightarrow> frame_ok f \<Longrightarrow>
   FIFO_step \<lparr>page_table = pt, frame_table = zero_aux occ, free_frame_list = f # fl,
              fault_rate = n, evictions = ev, FIFOSelection = c\<rparr> r =
   Inr \<lparr>page_table = upd pt r ((pt r)\<lparr>frame_no := f, valid_bit := 1\<rparr>),
        frame_table = zero_aux (upd occ f r), free_frame_list = fl, fault_rate = n + 1,
        evictions = ev, FIFOSelection = c\<rparr>"
  by (simp add: FIFO_step_def FIFO_invalid_def Let_def INVALID_BIT_def VALID_BIT_def zero_aux_store)

lemma FIFO_evict:
  "page_ok r \<Longrightarrow> valid_bit (pt r) = 0 \<Longrightarrow> frame_ok c \<Longrightarrow>
   FIFO_step \<lparr>page_table = pt, frame_table = zero_aux occ, free_frame_list = [],
              fault_rate = n, evictions = ev, FIFOSelection = c\<rparr> r =
   Inr \<lparr>page_table = upd pt r ((pt r)\<lparr>frame_no := c, valid_bit := 1\<rparr>),
        frame_table = zero_aux (upd occ c r), free_frame_list = [], fault_rate = n + 1,
        evictions = ev @ [c], FIFOSelection = FIFO_advance c\<rparr>"
  by (simp add: FIFO_step_def FIFO_invalid_def Let_def INVALID_BIT_def VALID_BIT_def zero_aux_store)

lemma FIFO_hit:
  "page_ok r \<Longrightarrow> valid_bit (pt r) \<noteq> 0 \<Longrightarrow> frame_ok (frame_no (pt r)) \<Longrightarrow>
   occ (frame_no (pt r)) = r \<Longrightarrow>
   FIFO_step \<lparr>page_table = pt, frame_table = zero_aux occ, free_frame_list = fl,
              fault_rate = n, evictions = ev, FIFOSelection = c\<rparr> r =
   Inr \<lparr>page_table = pt, frame_table = zero_aux occ, free_frame_list = fl,
        fault_rate = n, evictions = ev, FIFOSelection = c\<rparr>"
  by (simp add: FIFO_step_def isInMemory_def INVALID_BIT_def page_no_zero_aux)

lemma FIFO_advance_eval: "FIFO_advance c = (if c = 1 then 47 else c - 1)"
  by (simp add: FIFO_advance_def MAX_PAGE_FRAMES_def Let_def)

subsection \<open>OPT on a frame table whose auxiliary column is 0\<close>

lemma inner_loop_found: "x = page \<Longrightarrow> inner_loop (x # xs) page j fut = j"
  by simp

lemma inner_loop_next: "x \<noteq> page \<Longrightarrow> inner_loop (x # xs) page j fut = inner_loop xs page (j + 1) fut"
  by simp

lemma identifyPageToRemove_eval:
  "identifyPageToRemove (zero_aux occ) rs =
     snd (fold (\<lambda>i (max_turns, victim).
                  let d = inner_loop rs (occ i) 0 600
                  in if d > max_turns then (d, i) else (max_turns, victim))
            [0..47] (- 1, 0))"
  by (simp add: identifyPageToRemove_def futureref_def page_no_zero_aux PROC_POOL_SIZE_def
      MAX_PAGE_FRAMES_def Let_def cong: if_cong)

lemma erase_first_tl: "erase_first s = s\<lparr>reference_string := tl (reference_string s)\<rparr>"
  by (simp add: erase_first_def)

lemma OPT_oob: "\<not> page_ok r \<Longrightarrow> OPT_step s r = Inl (PageTableOutOfBounds r)"
  by (simp add: OPT_step_def)

lemma RAN_oob:
  "\<not> page_ok r \<Longrightarrow> RAN_step rand_max rnd ref s r = Inl (PageTableOutOfBounds r)"
  by (simp add: RAN_step_def)

lemma OPT_pop:
  "page_ok r \<Longrightarrow> valid_bit (pt r) = 0 \<Longrightarrow> frame_ok f \<Longrightarrow>
   OPT_step \<lparr>page_table = pt, frame_table = zero_aux occ, free_frame_list = f # fl,
             fault_rate = n, evictions = ev, reference_string = rs\<rparr> r =
   Inr \<lparr>page_table = upd pt r ((pt r)\<lparr>frame_no := f, valid_bit := 1\<rparr>),
        frame_table = zero_aux (upd occ f r), free_frame_list = fl, fault_rate = n + 1,
        evictions = ev, reference_string = tl rs\<rparr>"
  by (simp add: OPT_step_def OPT_invalid_def Let_def INVALID_BIT_def VALID_BIT_def zero_aux_store
      erase_first_tl)

lemma OPT_hit:
  "page_ok r \<Longrightarrow> valid_bit (pt r) \<noteq> 0 \<Longrightarrow> frame_ok (frame_no (pt r)) \<Longrightarrow>
   occ (frame_no (pt r)) = r \<Longrightarrow>
   OPT_step \<lparr>page_table = pt, frame_table = zero_aux occ, free_frame_list = fl,
             fault_rate = n, evictions = ev, reference_string = rs\<rparr> r =
   Inr \<lparr>page_table = pt, frame_table = zero_aux occ, free_frame_list = fl,
        fault_rate = n, evictions = ev, reference_string = tl rs\<rparr>"
  by (simp add: OPT_step_def isInMemory_def INVALID_BIT_def page_no_zero_aux erase_first_tl)

lemma OPT_stale_push:
  "page_ok r \<Longrightarrow> valid_bit (pt r) \<noteq> 0 \<Longrightarrow> frame_ok (frame_no (pt r)) \<Longrightarrow>
   occ (frame_no (pt r)) \<noteq> r \<Longrightarrow> identifyPageToRemove (zero_aux occ) rs = v \<Longrightarrow>
   frame_ok v \<Longrightarrow> page_ok (occ v) \<Longrightarrow>
   OPT_step \<lparr>page_table = pt, frame_table = zero_aux occ, free_frame_list = fl,
             fault_rate = n, evictions = ev, reference_string = rs\<rparr> r =
   Inr \<lparr>page_table =
          upd (upd pt (occ v) ((pt (occ v))\<lparr>valid_bit := 0\<rparr>))
            r ((pt r)\<lparr>frame_no := v, valid_bit := 1\<rparr>),
        frame_table = zero_aux (upd occ v r),
        free_frame_list = frame_no (pt r) # fl, fault_rate = n + 1, evictions = ev @ [v],
        reference_string = tl rs\<rparr>"
  by (simp add: OPT_step_def OPT_stale_def isInMemory_def Let_def INVALID_BIT_def
      VALID_BIT_def upd_apply zero_aux_store page_no_zero_aux erase_first_tl)

subsection \<open>Evaluation of main's free lists and of numerals\<close>

lemma replicate_num: "replicate (numeral k) x = x # replicate (pred_numeral k) x"
  by (simp add: numeral_eq_Suc)

lemma fill_once: "fill_free_frame_list fl = rev [0..47] @ fl"
  by (simp add: fill_free_frame_list_def MAX_PAGE_FRAMES_def upto_rec1)

lemma main_free_frame_list_Suc: "main_free_frame_list (Suc k) = rev [0..47] @ main_free_frame_list k"
  by (simp add: main_free_frame_list_def fill_once)

lemma main_free_frame_list_0: "main_free_frame_list 0 = replicate 48 0"
  by (simp add: main_free_frame_list_def constructed_free_frame_list_def MAX_PAGE_FRAMES_def)

lemma main_free_frame_list_num:
  "main_free_frame_list (numeral k) = rev [0..47] @ main_free_frame_list (pred_numeral k)"
  by (simp add: numeral_eq_Suc main_free_frame_list_Suc)

lemma main_free_frame_list_1: "main_free_frame_list 1 = rev [0..47] @ replicate 48 0"
  using main_free_frame_list_Suc[of 0] by (simp add: main_free_frame_list_0)

lemmas eval_rules = arith_simps rel_simps simp_thms if_True if_False pred_numeral_simps
  list.simps list.sel append.simps rev.simps sum.simps option.simps run.simps prod.simps
  page_row.simps frame_row.simps tables.simps One_nat_def fold_simps snd_conv fst_conv Let_def
  one_add_one numeral_plus_one one_plus_numeral append_assoc order_refl
  zero_le_one zero_less_one upto_empty upto_rec1
  replicate.simps replicate_num diff_numeral_special
  upd_same upd_other page_ok_def frame_ok_def MAX_NUM_PAGES_def MAX_PAGE_FRAMES_def
  fresh_page_table_def INVALID_BIT_def VALID_BIT_def fresh_frame_table_zero_aux final_def faults_def
  page_no_zero_aux frame_aux_zero_aux
  main_free_frame_list_num main_free_frame_list_Suc main_free_frame_list_0 main_free_frame_list_1

lemmas RU_eval = RU_def RU_oob RU_pop RU_evict RU_hit RU_stale_push eval_rules

lemmas FIFO_eval = FIFO_def FIFO_oob FIFO_pop FIFO_evict FIFO_hit FIFO_advance_eval eval_rules
  fifo_state.simps

lemmas OPT_eval = OPT_def OPT_oob OPT_pop OPT_hit OPT_stale_push identifyPageToRemove_eval
  inner_loop_found inner_loop_next inner_loop.simps(1) eval_rules opt_state.simps

section \<open>Properties of the loop and of the routines\<close>

lemma run_Inl: "run step (Inl e) xs = Inl e"
  by (cases xs) simp_all

lemma run_append: "run step r (xs @ ys) = run step (run step r xs) ys"
proof (induction xs arbitrary: r)
  case Nil
  show ?case by simp
next
  case (Cons x xs)
  show ?case
  proof (cases r)
    case (Inl e)
    then show ?thesis by (simp add: run_Inl)
  next
    case (Inr s)
    then show ?thesis using Cons.IH by simp
  qed
qed

subsection \<open>RU does not depend on its type while the counters are 0\<close>

lemma RU_touch_simp:
  "RU_touch s r =
    (if \<not> frame_ok (frame_no (page_table s r))
     then Inl (FrameTableOutOfBounds (frame_no (page_table s r)))
     else Inr (s\<lparr>frame_table := upd (frame_table s) (frame_no (page_table s r))
                     ((frame_table s (frame_no (page_table s r)))\<lparr>frame_aux := 0\<rparr>)\<rparr>))"
  by (simp add: RU_touch_def Let_def increment_others_noop)

lemma aux_zero_upd: "aux_zero ft \<Longrightarrow> frame_aux row = 0 \<Longrightarrow> aux_zero (upd ft f row)"
  by (simp add: aux_zero_def upd_def)

lemma aux_zero_upd_page: "aux_zero ft \<Longrightarrow> frame_ok f \<Longrightarrow> aux_zero (upd ft f ((ft f)\<lparr>page_no := r\<rparr>))"
  by (simp add: aux_zero_def upd_def)

lemma RU_step_type_independent:
  "aux_zero (frame_table s) \<Longrightarrow> RU_step t s r = RU_step t' s r"
  by (simp add: RU_step_def RU_invalid_def RU_stale_def RU_scan_zero Let_def)

lemma RU_step_keeps_zero:
  assumes "aux_zero (frame_table s)" and "RU_step t s r = Inr s'"
  shows "aux_zero (frame_table s') \<and> set (evictions s') \<subseteq> insert 0 (set (evictions s))"
  using assms
  by (auto simp: RU_step_def RU_invalid_def RU_stale_def RU_touch_simp RU_scan_zero Let_def
      increment_others_noop aux_zero_upd aux_zero_upd_page frame_ok_0
      split: if_splits sum.splits)

lemma RU_run_type_independent:
  "aux_zero (frame_table s) \<Longrightarrow> run (RU_step t) (Inr s) trace = run (RU_step t') (Inr s) trace"
proof (induction trace arbitrary: s)
  case Nil
  show ?case by simp
next
  case (Cons r rs)
  show ?case
  proof (cases "RU_step t s r")
    case (Inl e)
    then show ?thesis
      using RU_step_type_independent[OF Cons.prems, of t r t'] by (simp add: run_Inl)
  next
    case (Inr s1)
    have z: "aux_zero (frame_table s1)" using RU_step_keeps_zero[OF Cons.prems Inr] by simp
    show ?thesis
      using RU_step_type_independent[OF Cons.prems, of t r t'] Inr Cons.IH[OF z] by simp
  qed
qed

lemma RU_run_keeps_zero:
  "aux_zero (frame_table s) \<Longrightarrow> run (RU_step t) (Inr s) trace = Inr s' \<Longrightarrow>
   aux_zero (frame_table s') \<and> set (evictions s') \<subseteq> insert 0 (set (evictions s))"
proof (induction trace arbitrary: s)
  case Nil
  then show ?case by auto
next
  case (Cons r rs)
  show ?case
  proof (cases "RU_step t s r")
    case (Inl e)
    then show ?thesis using Cons.prems(2) by (simp add: run_Inl)
  next
    case (Inr s1)
    have z: "aux_zero (frame_table s1)"
      and e: "set (evictions s1) \<subseteq> insert 0 (set (evictions s))"
      using RU_step_keeps_zero[OF Cons.prems(1) Inr] by simp_all
    have "run (RU_step t) (Inr s1) rs = Inr s'" using Cons.prems(2) Inr by simp
    from Cons.IH[OF z this] e show ?thesis by auto
  qed
qed

subsection \<open>The free list: FIFO only pops, the other routines push\<close>

lemma FIFO_step_free_list:
  "FIFO_step s r = Inr s' \<Longrightarrow>
   free_frame_list s' = free_frame_list s \<or>
   (free_frame_list s \<noteq> [] \<and> free_frame_list s' = tl (free_frame_list s))"
  by (auto simp: FIFO_step_def FIFO_invalid_def FIFO_stale_def Let_def
      split: if_splits)

lemma FIFO_run_free_list:
  "run FIFO_step (Inr s) trace = Inr s' \<Longrightarrow> \<exists>k. free_frame_list s' = drop k (free_frame_list s)"
proof (induction trace arbitrary: s)
  case Nil
  then have "free_frame_list s' = drop 0 (free_frame_list s)" by simp
  then show ?case by blast
next
  case (Cons r rs)
  show ?case
  proof (cases "FIFO_step s r")
    case (Inl e)
    then show ?thesis using Cons.prems by (simp add: run_Inl)
  next
    case (Inr s1)
    then have "run FIFO_step (Inr s1) rs = Inr s'" using Cons.prems by simp
    from Cons.IH[OF this] obtain k where k: "free_frame_list s' = drop k (free_frame_list s1)"
      by blast
    from FIFO_step_free_list[OF Inr]
    show ?thesis
    proof
      assume "free_frame_list s1 = free_frame_list s"
      with k show ?thesis by auto
    next
      assume "free_frame_list s \<noteq> [] \<and> free_frame_list s1 = tl (free_frame_list s)"
      then have "free_frame_list s' = drop (Suc k) (free_frame_list s)"
        using k by (simp add: drop_Suc drop_tl)
      then show ?thesis by blast
    qed
  qed
qed

lemma FIFO_step_reuses_cursor:
  "free_frame_list s = [] \<Longrightarrow> FIFO_step s r = Inr s' \<Longrightarrow>
   (s' = s \<or> (evictions s' = evictions s @ [FIFOSelection s] \<and>
               frame_no (page_table s' r) = FIFOSelection s \<and>
               fault_rate s' = fault_rate s + 1))"
  by (auto simp: FIFO_step_def FIFO_invalid_def FIFO_stale_def Let_def upd_def
      split: if_splits)

lemma RU_step_stale_pushes:
  "page_ok r \<Longrightarrow> valid_bit (page_table s r) \<noteq> INVALID_BIT \<Longrightarrow>
   frame_ok (frame_no (page_table s r)) \<Longrightarrow>
   page_no (frame_table s (frame_no (page_table s r))) \<noteq> r \<Longrightarrow>
   RU_step t s r = Inr s' \<Longrightarrow>
   free_frame_list s' = frame_no (page_table s r) # free_frame_list s"
  by (auto simp: RU_step_def RU_stale_def RU_touch_simp isInMemory_def Let_def
      split: if_splits sum.splits)

lemma OPT_step_stale_pushes:
  "page_ok r \<Longrightarrow> valid_bit (page_table s r) \<noteq> INVALID_BIT \<Longrightarrow>
   frame_ok (frame_no (page_table s r)) \<Longrightarrow>
   page_no (frame_table s (frame_no (page_table s r))) \<noteq> r \<Longrightarrow>
   OPT_step s r = Inr s' \<Longrightarrow>
   free_frame_list s' = frame_no (page_table s r) # free_frame_list s"
  by (auto simp: OPT_step_def OPT_stale_def erase_first_tl isInMemory_def Let_def
      split: if_splits sum.splits)

lemma RAN_step_stale_pushes:
  "page_ok r \<Longrightarrow> valid_bit (page_table s r) \<noteq> INVALID_BIT \<Longrightarrow>
   frame_ok (frame_no (page_table s r)) \<Longrightarrow>
   page_no (frame_table s (frame_no (page_table s r))) \<noteq> r \<Longrightarrow>
   RAN_step rand_max rnd ref s r = Inr s' \<Longrightarrow>
   free_frame_list s' = frame_no (page_table s r) # free_frame_list s"
  by (auto simp: RAN_step_def RAN_stale_def isInMemory_def Let_def
      split: if_splits sum.splits)

subsection \<open>No access outside the tables\<close>

text \<open>
  A step on a reference within the page table, from tables that index each other within
  bounds, performs no access outside them and leaves such tables. The frame each policy
  selects is a frame of the frame table.
\<close>

lemma run_invariant:
  assumes step: "\<And>s r. I s \<Longrightarrow> page_ok r \<Longrightarrow> \<exists>s'. step s r = Inr s' \<and> I s'"
  shows "I s \<Longrightarrow> \<forall>r \<in> set trace. page_ok r \<Longrightarrow> \<exists>s'. run step (Inr s) trace = Inr s' \<and> I s'"
proof (induction trace arbitrary: s)
  case Nil
  then show ?case by simp
next
  case (Cons r rs)
  from step[OF Cons.prems(1), of r] Cons.prems(2)
  obtain s1 where s1: "step s r = Inr s1" "I s1" by auto
  from Cons.IH[OF s1(2)] Cons.prems(2) s1(1) show ?case by simp
qed

lemma fold_pick_range:
  "snd (fold (\<lambda>k (m, v). if P k m then (g k, k) else (m, v)) ks (m0, v0)) \<in> insert v0 (set ks)"
proof (induction ks arbitrary: m0 v0)
  case Nil
  show ?case by simp
next
  case (Cons k ks)
  show ?case using Cons.IH[of "g k" k] Cons.IH[of m0 v0] by auto
qed

lemma RU_scan_in_range: "frame_ok (RU_scan t ft)"
proof -
  have a: "RU_scan t ft \<in> insert 0 (set [1..MAX_PAGE_FRAMES - 1])"
    unfolding RU_scan_def
    using fold_pick_range[of "\<lambda>k m. frame_aux (ft k) > m" "\<lambda>k. frame_aux (ft k)"
                             "[1..MAX_PAGE_FRAMES - 1]" "frame_aux (ft 0)" 0]
          fold_pick_range[of "\<lambda>k m. frame_aux (ft k) < m" "\<lambda>k. frame_aux (ft k)"
                             "[1..MAX_PAGE_FRAMES - 1]" "frame_aux (ft 0)" 0]
    by (simp split: if_splits)
  then show ?thesis by (auto simp: frame_ok_def MAX_PAGE_FRAMES_def)
qed

lemma identifyPageToRemove_in_range: "frame_ok (identifyPageToRemove ft rs)"
proof -
  have a: "identifyPageToRemove ft rs \<in> insert 0 (set [0..MAX_PAGE_FRAMES - 1])"
    unfolding identifyPageToRemove_def
    using fold_pick_range[of "\<lambda>i m. futureref ft rs i > m" "\<lambda>i. futureref ft rs i"
                             "[0..MAX_PAGE_FRAMES - 1]" "- 1" 0]
    by simp
  then show ?thesis by (auto simp: frame_ok_def MAX_PAGE_FRAMES_def)
qed

lemma scaled_draw_less:
  assumes "0 \<le> (r::int)" "r \<le> m"
  shows "r * 48 div (m + 1) < 48"
proof (rule ccontr)
  assume n: "\<not> r * 48 div (m + 1) < 48"
  have b: "0 < m + 1" using assms by simp
  have "(m + 1) * (r * 48 div (m + 1)) + (r * 48) mod (m + 1) = r * 48" by simp
  moreover have "0 \<le> (r * 48) mod (m + 1)" using b by simp
  ultimately have le: "(m + 1) * (r * 48 div (m + 1)) \<le> r * 48" by linarith
  from n have "48 \<le> r * 48 div (m + 1)" by simp
  then have "(m + 1) * 48 \<le> (m + 1) * (r * 48 div (m + 1))"
    using b by (intro mult_left_mono) simp_all
  with le have "(m + 1) * 48 \<le> r * 48" by linarith
  then show False using assms by simp
qed

lemma random_frame_in_range:
  assumes "0 \<le> r" "r \<le> rand_max"
  shows "frame_ok (random_frame ref rand_max r)"
proof (cases "ref = ''RAN''")
  case True
  have "r * 48 div (rand_max + 1) < 48" using assms by (rule scaled_draw_less)
  moreover have "0 \<le> r * 48 div (rand_max + 1)"
    using assms by (simp add: pos_imp_zdiv_nonneg_iff)
  ultimately show ?thesis using True
    by (simp add: random_frame_def frame_ok_def MAX_PAGE_FRAMES_def)
next
  case False
  then show ?thesis by (simp add: random_frame_def frame_ok_def MAX_PAGE_FRAMES_def)
qed

lemma in_tl: "x \<in> set (tl xs) \<Longrightarrow> x \<in> set xs"
  by (cases xs) simp_all

lemma RU_touch_ok:
  "tables_ok s \<Longrightarrow> page_ok r \<Longrightarrow> \<exists>s'. RU_touch s r = Inr s' \<and> tables_ok s'"
  by (auto simp: tables_ok_def RU_touch_simp upd_def)

lemma RU_invalid_ok:
  "tables_ok s \<Longrightarrow> page_ok r \<Longrightarrow> \<exists>s'. RU_invalid t s r = Inr s' \<and> tables_ok s'"
  by (auto simp: tables_ok_def RU_invalid_def Let_def increment_others_noop upd_def
      RU_scan_in_range dest: in_tl)

lemma RU_stale_ok:
  "tables_ok s \<Longrightarrow> page_ok r \<Longrightarrow> \<exists>s'. RU_stale t s r = Inr s' \<and> tables_ok s'"
  by (auto simp: tables_ok_def RU_stale_def Let_def increment_others_noop upd_def
      RU_scan_in_range)

lemma RU_step_ok:
  assumes "tables_ok s" "page_ok r"
  shows "\<exists>s'. RU_step t s r = Inr s' \<and> tables_ok s'"
proof -
  have f: "frame_ok (frame_no (page_table s r))" using assms by (simp add: tables_ok_def)
  from RU_invalid_ok[OF assms, of t] obtain s1 where
    s1: "RU_invalid t s r = Inr s1" "tables_ok s1" by blast
  from RU_stale_ok[OF assms, of t] obtain s2 where
    s2: "RU_stale t s r = Inr s2" "tables_ok s2" by blast
  show ?thesis
    using assms f s1 s2 RU_touch_ok[OF s1(2) assms(2)] RU_touch_ok[OF s2(2) assms(2)]
      RU_touch_ok[OF assms]
    by (simp add: RU_step_def)
qed

lemma OPT_invalid_ok:
  "tables_ok s \<Longrightarrow> page_ok r \<Longrightarrow> \<exists>s'. OPT_invalid s r = Inr s' \<and> tables_ok s'"
  by (auto simp: tables_ok_def OPT_invalid_def Let_def upd_def
      identifyPageToRemove_in_range dest: in_tl)

lemma OPT_stale_ok:
  "tables_ok s \<Longrightarrow> page_ok r \<Longrightarrow> \<exists>s'. OPT_stale s r = Inr s' \<and> tables_ok s'"
  by (auto simp: tables_ok_def OPT_stale_def Let_def upd_def identifyPageToRemove_in_range)

lemma erase_first_ok: "tables_ok s \<Longrightarrow> tables_ok (erase_first s)"
  by (simp add: tables_ok_def erase_first_tl)

lemma OPT_step_ok:
  assumes "tables_ok s" "page_ok r"
  shows "\<exists>s'. OPT_step s r = Inr s' \<and> tables_ok s'"
proof -
  have f: "frame_ok (frame_no (page_table s r))" using assms by (simp add: tables_ok_def)
  from OPT_invalid_ok[OF assms] obtain s1 where
    s1: "OPT_invalid s r = Inr s1" "tables_ok s1" by blast
  from OPT_stale_ok[OF assms] obtain s2 where
    s2: "OPT_stale s r = Inr s2" "tables_ok s2" by blast
  show ?thesis
    using assms f s1 s2 erase_first_ok by (simp add: OPT_step_def)
qed

lemma RAN_step_ok:
  assumes "\<forall>k. 0 \<le> rnd k \<and> rnd k \<le> rand_max" "tables_ok s" "page_ok r"
  shows "\<exists>s'. RAN_step rand_max rnd ref s r = Inr s' \<and> tables_ok s'"
proof -
  have d: "frame_ok (random_frame ref rand_max (rnd (rand_calls s)))"
    using assms(1) by (intro random_frame_in_range) simp_all
  show ?thesis
    using assms(2,3) d
    by (auto simp: tables_ok_def RAN_step_def RAN_invalid_def RAN_stale_def isInMemory_def
        Let_def upd_def dest: in_tl)
qed

lemma FIFO_advance_range:
  "1 \<le> c \<Longrightarrow> c < MAX_PAGE_FRAMES \<Longrightarrow>
   1 \<le> FIFO_advance c \<and> FIFO_advance c < MAX_PAGE_FRAMES"
  by (simp add: FIFO_advance_def Let_def MAX_PAGE_FRAMES_def)

lemma FIFO_step_ok:
  assumes "fifo_ok s" "page_ok r"
  shows "\<exists>s'. FIFO_step s r = Inr s' \<and> fifo_ok s'"
proof -
  have c: "frame_ok (FIFOSelection s)"
    and a: "1 \<le> FIFO_advance (FIFOSelection s) \<and> FIFO_advance (FIFOSelection s) < MAX_PAGE_FRAMES"
    using assms(1) FIFO_advance_range[of "FIFOSelection s"]
    by (simp_all add: fifo_ok_def frame_ok_def)
  show ?thesis
    using assms c a
    by (auto simp: fifo_ok_def FIFO_step_def FIFO_invalid_def FIFO_stale_def isInMemory_def
        Let_def upd_def dest: in_tl)
qed

subsection \<open>identifyPageToRemove: distances and the victim\<close>

lemma inner_loop_absent: "page \<notin> set rs \<Longrightarrow> inner_loop rs page j fut = fut"
  by (induction rs arbitrary: j) simp_all

lemma inner_loop_present:
  "page \<in> set rs \<Longrightarrow>
   \<exists>k < length rs. inner_loop rs page j fut = j + int k \<and> rs ! k = page \<and>
                    (\<forall>i < k. rs ! i \<noteq> page)"
proof (induction rs arbitrary: j)
  case Nil
  then show ?case by simp
next
  case (Cons x xs)
  show ?case
  proof (cases "x = page")
    case True
    then have "inner_loop (x # xs) page j fut = j + int 0 \<and> (x # xs) ! 0 = page \<and>
               (\<forall>i < (0::nat). (x # xs) ! i \<noteq> page)" by simp
    then show ?thesis by blast
  next
    case False
    then have "page \<in> set xs" using Cons.prems by simp
    from Cons.IH[OF this, of "j + 1"] obtain k where
      k: "k < length xs" "inner_loop xs page (j + 1) fut = j + 1 + int k" "xs ! k = page"
         "\<forall>i < k. xs ! i \<noteq> page" by blast
    have "\<forall>i < Suc k. (x # xs) ! i \<noteq> page"
      using False k(4) by (auto simp: nth_Cons split: nat.splits)
    with k False have "Suc k < length (x # xs) \<and>
        inner_loop (x # xs) page j fut = j + int (Suc k) \<and> (x # xs) ! Suc k = page \<and>
        (\<forall>i < Suc k. (x # xs) ! i \<noteq> page)" by simp
    then show ?thesis by blast
  qed
qed

lemma futureref_absent:
  "page_no (ft i) \<notin> set rs \<Longrightarrow> futureref ft rs i = PROC_POOL_SIZE + 100"
  by (simp add: futureref_def inner_loop_absent)

lemma futureref_present:
  assumes "page_no (ft i) \<in> set rs"
  shows "0 \<le> futureref ft rs i \<and> futureref ft rs i < int (length rs) \<and>
         rs ! nat (futureref ft rs i) = page_no (ft i) \<and>
         (\<forall>j < nat (futureref ft rs i). rs ! j \<noteq> page_no (ft i))"
proof -
  from inner_loop_present[OF assms, of 0 "PROC_POOL_SIZE + 100"] obtain k where
    "k < length rs" "futureref ft rs i = int k" "rs ! k = page_no (ft i)"
    "\<forall>j < k. rs ! j \<noteq> page_no (ft i)"
    by (auto simp: futureref_def)
  then show ?thesis by simp
qed

lemma futureref_nonneg: "0 \<le> futureref ft rs i"
  using futureref_absent[of ft i rs] futureref_present[of ft i rs]
  by (cases "page_no (ft i) \<in> set rs") (simp_all add: PROC_POOL_SIZE_def)

lemma fold_first_max:
  fixes d :: "int \<Rightarrow> int"
  shows "\<exists>m' v'. fold (\<lambda>i (m, v). if d i > m then (d i, i) else (m, v)) ks (m0, v0) = (m', v') \<and>
           m0 \<le> m' \<and> (\<forall>k \<in> set ks. d k \<le> m') \<and>
           ((m' = m0 \<and> v' = v0) \<or>
            (\<exists>xs ys. ks = xs @ v' # ys \<and> d v' = m' \<and> m0 < m' \<and> (\<forall>k \<in> set xs. d k < m')))"
proof (induction ks arbitrary: m0 v0)
  case Nil
  show ?case by simp
next
  case (Cons k ks)
  show ?case
  proof (cases "d k > m0")
    case True
    from Cons.IH[of "d k" k] obtain m' v' where
      f: "fold (\<lambda>i (m, v). if d i > m then (d i, i) else (m, v)) ks (d k, k) = (m', v')"
      and le: "d k \<le> m'" and all: "\<forall>x \<in> set ks. d x \<le> m'"
      and alt: "(m' = d k \<and> v' = k) \<or>
            (\<exists>xs ys. ks = xs @ v' # ys \<and> d v' = m' \<and> d k < m' \<and> (\<forall>x \<in> set xs. d x < m'))"
      by blast
    have pos: "\<exists>xs ys. k # ks = xs @ v' # ys \<and> d v' = m' \<and> m0 < m' \<and> (\<forall>x \<in> set xs. d x < m')"
      using alt
    proof
      assume "m' = d k \<and> v' = k"
      then have "k # ks = [] @ v' # ks \<and> d v' = m' \<and> m0 < m' \<and> (\<forall>x \<in> set []. d x < m')"
        using True by simp
      then show ?thesis by blast
    next
      assume "\<exists>xs ys. ks = xs @ v' # ys \<and> d v' = m' \<and> d k < m' \<and> (\<forall>x \<in> set xs. d x < m')"
      then obtain xs ys where
        "ks = xs @ v' # ys" "d v' = m'" "d k < m'" "\<forall>x \<in> set xs. d x < m'" by blast
      then have "k # ks = (k # xs) @ v' # ys \<and> d v' = m' \<and> m0 < m' \<and>
                 (\<forall>x \<in> set (k # xs). d x < m')"
        using True by simp
      then show ?thesis by blast
    qed
    from f le all pos True show ?thesis by auto
  next
    case False
    from Cons.IH[of m0 v0] obtain m' v' where
      f: "fold (\<lambda>i (m, v). if d i > m then (d i, i) else (m, v)) ks (m0, v0) = (m', v')"
      and le: "m0 \<le> m'" and all: "\<forall>x \<in> set ks. d x \<le> m'"
      and alt: "(m' = m0 \<and> v' = v0) \<or>
            (\<exists>xs ys. ks = xs @ v' # ys \<and> d v' = m' \<and> m0 < m' \<and> (\<forall>x \<in> set xs. d x < m'))"
      by blast
    have alt': "(m' = m0 \<and> v' = v0) \<or>
            (\<exists>xs ys. k # ks = xs @ v' # ys \<and> d v' = m' \<and> m0 < m' \<and> (\<forall>x \<in> set xs. d x < m'))"
      using alt
    proof
      assume "m' = m0 \<and> v' = v0"
      then show ?thesis by simp
    next
      assume "\<exists>xs ys. ks = xs @ v' # ys \<and> d v' = m' \<and> m0 < m' \<and> (\<forall>x \<in> set xs. d x < m')"
      then obtain xs ys where
        "ks = xs @ v' # ys" "d v' = m'" "m0 < m'" "\<forall>x \<in> set xs. d x < m'" by blast
      then have "k # ks = (k # xs) @ v' # ys \<and> d v' = m' \<and> m0 < m' \<and>
                 (\<forall>x \<in> set (k # xs). d x < m')"
        using False by simp
      then show ?thesis by blast
    qed
    from f le all alt' False show ?thesis by auto
  qed
qed

lemma upto_before:
  assumes "[a..b] = xs @ v # ys" "a \<le> i" "i < v"
  shows "i \<in> set xs"
proof -
  have s: "sorted (xs @ v # ys)" using assms(1) sorted_upto[of a b] by simp
  have "v \<in> set [a..b]" using assms(1) by simp
  then have "i \<in> set [a..b]" using assms(2,3) by simp
  then have "i \<in> set xs \<or> i = v \<or> i \<in> set ys" using assms(1) by auto
  moreover have "i \<notin> set ys" using s assms(3) by (auto simp: sorted_append)
  ultimately show ?thesis using assms(3) by simp
qed

lemma identifyPageToRemove_max:
  "frame_ok (identifyPageToRemove ft rs) \<and>
   (\<forall>i. frame_ok i \<longrightarrow> futureref ft rs i \<le> futureref ft rs (identifyPageToRemove ft rs)) \<and>
   (\<forall>i. frame_ok i \<and> i < identifyPageToRemove ft rs \<longrightarrow>
        futureref ft rs i < futureref ft rs (identifyPageToRemove ft rs))"
proof -
  from fold_first_max[of "futureref ft rs" "[0..MAX_PAGE_FRAMES - 1]" "- 1" 0]
  obtain m' v' where
    f: "fold (\<lambda>i (m, v). if futureref ft rs i > m then (futureref ft rs i, i) else (m, v))
          [0..MAX_PAGE_FRAMES - 1] (- 1, 0) = (m', v')"
    and all: "\<forall>k \<in> set [0..MAX_PAGE_FRAMES - 1]. futureref ft rs k \<le> m'"
    and alt: "(m' = - 1 \<and> v' = 0) \<or>
            (\<exists>xs ys. [0..MAX_PAGE_FRAMES - 1] = xs @ v' # ys \<and> futureref ft rs v' = m' \<and>
               - 1 < m' \<and> (\<forall>k \<in> set xs. futureref ft rs k < m'))"
    by blast
  have v: "identifyPageToRemove ft rs = v'"
    using f by (simp add: identifyPageToRemove_def)
  have "futureref ft rs 0 \<le> m'" using all by (simp add: MAX_PAGE_FRAMES_def)
  then have "m' \<noteq> - 1" using futureref_nonneg[of ft rs 0] by simp
  with alt obtain xs ys where
    split: "[0..MAX_PAGE_FRAMES - 1] = xs @ v' # ys" and dv: "futureref ft rs v' = m'"
    and before: "\<forall>k \<in> set xs. futureref ft rs k < m'" by blast
  have "v' \<in> set [0..MAX_PAGE_FRAMES - 1]" using split by simp
  then have ok: "frame_ok v'" by (simp add: frame_ok_def)
  have mx: "\<forall>i. frame_ok i \<longrightarrow> futureref ft rs i \<le> futureref ft rs v'"
    using all dv by (simp add: frame_ok_def)
  have lo: "\<forall>i. frame_ok i \<and> i < v' \<longrightarrow> futureref ft rs i < futureref ft rs v'"
    using upto_before[OF split] before dv by (auto simp: frame_ok_def)
  from ok mx lo v show ?thesis by simp
qed

lemma OPT_step_reference_string:
  "OPT_step s r = Inr s' \<Longrightarrow> length (reference_string s') \<le> length (reference_string s)"
  by (auto simp: OPT_step_def OPT_invalid_def OPT_stale_def erase_first_tl Let_def
      split: if_splits sum.splits)

subsection \<open>The tables and the traces main passes\<close>

lemma main_free_frame_list_ok: "\<forall>f \<in> set (main_free_frame_list k). frame_ok f"
proof (induction k)
  case 0
  show ?case by (simp add: main_free_frame_list_0 frame_ok_def MAX_PAGE_FRAMES_def)
next
  case (Suc k)
  then show ?case
    by (auto simp: main_free_frame_list_Suc frame_ok_def MAX_PAGE_FRAMES_def)
qed

lemma file_references_ok:
  "\<forall>r \<in> set tokens. page_ok r \<Longrightarrow> \<forall>r \<in> set (file_references tokens). page_ok r"
  by (auto simp: file_references_def page_ok_def MAX_NUM_PAGES_def)

lemma fresh_tables_ok:
  "tables_ok \<lparr>page_table = fresh_page_table, frame_table = fresh_frame_table,
             free_frame_list = main_free_frame_list k, fault_rate = 0, evictions = [],
             \<dots> = m\<rparr>"
  using main_free_frame_list_ok[of k]
  by (simp add: tables_ok_def fresh_page_table_def fresh_frame_table_def INVALID_BIT_def
      frame_ok_def page_ok_def MAX_PAGE_FRAMES_def MAX_NUM_PAGES_def)

lemma fresh_fifo_ok:
  "fifo_ok \<lparr>page_table = fresh_page_table, frame_table = fresh_frame_table,
            free_frame_list = main_free_frame_list k, fault_rate = 0, evictions = [],
            FIFOSelection = MAX_PAGE_FRAMES - 1\<rparr>"
  using main_free_frame_list_ok[of k]
  by (simp add: fifo_ok_def fresh_page_table_def fresh_frame_table_def INVALID_BIT_def
      frame_ok_def page_ok_def MAX_PAGE_FRAMES_def MAX_NUM_PAGES_def)

lemma OPT_run_reference_string:
  "run OPT_step (Inr s) trace = Inr s' \<Longrightarrow>
   length (reference_string s') \<le> length (reference_string s)"
proof (induction trace arbitrary: s)
  case Nil
  then show ?case by simp
next
  case (Cons r rs)
  show ?case
  proof (cases "OPT_step s r")
    case (Inl e)
    then show ?thesis using Cons.prems by (simp add: run_Inl)
  next
    case (Inr s1)
    then have "run OPT_step (Inr s1) rs = Inr s'" using Cons.prems by simp
    from Cons.IH[OF this] OPT_step_reference_string[OF Inr] show ?thesis by simp
  qed
qed

lemma file_oracle_length: "length (file_oracle tokens) = nat PROC_POOL_SIZE"
  by (simp add: file_oracle_def)

lemma main_OPT_reference_string:
  "OPT pt ft fl (file_oracle tokens) trace = Inr s \<Longrightarrow>
   length (reference_string s) \<le> nat PROC_POOL_SIZE"
  using OPT_run_reference_string[of _ trace s] file_oracle_length[of tokens]
  by (fastforce simp: OPT_def)

section \<open>The claims\<close>

text \<open>
  Claim C1 (the fault count of OPT is at most that of every other policy on the same
  trace) fails on the code. reference_string.txt holds 0, 1, ..., 48 and then 451 times
  0, one per line: 500 entries, as createReferenceString writes them. OPT reports 50
  faults and FIFO 49. OPT is started on a free list that holds every frame index four
  times, so page 48 is given frame 47 while page 0, still marked valid, is recorded there;
  the next reference to page 0 is a fault. FIFO, started on a list that holds 48 zeros
  below the frame indices, gives page 48 frame 0, and page 0 stays resident.
\<close>

theorem C1_OPT_more_faults_than_FIFO:
  "faults (main_OPT ([0..48] @ replicate 451 0)) = Some 50 \<and>
   faults (main_FIFO ([0..48] @ replicate 451 0)) = Some 49"
proof -
  have t: "file_references ([0..48] @ replicate 451 0) = [0..48] @ replicate 451 0 @ [0]"
    by (simp add: file_references_def)
  have o: "file_oracle ([0..48] @ replicate 451 0) = [0..48] @ replicate 451 0"
    by (simp add: file_oracle_def PROC_POOL_SIZE_def)
  have opt: "faults (main_OPT ([0..48] @ replicate 451 0)) = Some 50"
    unfolding main_OPT_def t o by (simp only: OPT_eval)
  have fifo: "faults (main_FIFO ([0..48] @ replicate 451 0)) = Some 49"
    unfolding main_FIFO_def t by (simp only: FIFO_eval)
  from opt fifo show ?thesis by (rule conjI)
qed

text \<open>
  Claim C2 (LRU evicts the frame whose counter is largest, the frame with the most
  references since it was last touched, the lowest index among equals) fails on the code.
  On a frame table whose counters fall from 48 in frame 0 to 1 in frame 47, the scan of
  the branch taken for "LRU" returns frame 47, the frame with the smallest counter, and
  the scan of the branch for "MRU" returns frame 0, the one with the largest; RU called
  with type "LRU" on that table, an empty free list and a reference to the invalid page
  100 evicts frame 47. In the program the counters never advance (claim C3): with
  reference_string.txt holding 0, 1, ..., 144 and then 355 times 144, the free list of
  the LRU run is empty after 144 references, frame 0 holds page 143, referenced last, and
  frame 47 holds page 48, not referenced for 95 references; the reference to page 144
  evicts frame 0.
\<close>

theorem C2_LRU_scan_takes_smallest_counter:
  "RU_scan ''LRU'' (\<lambda>k. \<lparr>page_no = k, frame_aux = 48 - k\<rparr>) = 47 \<and>
   RU_scan ''MRU'' (\<lambda>k. \<lparr>page_no = k, frame_aux = 48 - k\<rparr>) = 0 \<and>
   final evictions
     (RU fresh_page_table (\<lambda>k. \<lparr>page_no = k, frame_aux = 48 - k\<rparr>) [] ''LRU'' [100])
     = Some [47] \<and>
   final (\<lambda>s. (free_frame_list s, page_no (frame_table s 0), page_no (frame_table s 47)))
     (RU fresh_page_table fresh_frame_table (main_free_frame_list 2) ''LRU'' [0..143])
     = Some ([], 143, 48) \<and>
   final evictions (main_LRU ([0..144] @ replicate 355 144)) = Some [0]"
proof -
  have lru: "RU_scan ''LRU'' (\<lambda>k. \<lparr>page_no = k, frame_aux = 48 - k\<rparr>) = 47"
    by (simp add: RU_scan_def MAX_PAGE_FRAMES_def upto_rec1)
  have mru: "RU_scan ''MRU'' (\<lambda>k. \<lparr>page_no = k, frame_aux = 48 - k\<rparr>) = 0"
    by (simp add: RU_scan_def MAX_PAGE_FRAMES_def upto_rec1)
  have call: "final evictions
     (RU fresh_page_table (\<lambda>k. \<lparr>page_no = k, frame_aux = 48 - k\<rparr>) [] ''LRU'' [100])
     = Some [47]"
    by (simp add: RU_def RU_step_def RU_invalid_def RU_touch_def increment_others_noop lru
        Let_def final_def fresh_page_table_def page_ok_def frame_ok_def MAX_NUM_PAGES_def
        MAX_PAGE_FRAMES_def INVALID_BIT_def VALID_BIT_def upd_def)
  have before: "final (\<lambda>s. (free_frame_list s, page_no (frame_table s 0), page_no (frame_table s 47)))
     (RU fresh_page_table fresh_frame_table (main_free_frame_list 2) ''LRU'' [0..143])
     = Some ([], 143, 48)"
    by (simp only: RU_eval)
  have t: "file_references ([0..144] @ replicate 355 144) = [0..144] @ replicate 355 144 @ [144]"
    by (simp add: file_references_def)
  have prog: "final evictions (main_LRU ([0..144] @ replicate 355 144)) = Some [0]"
    unfolding main_LRU_def t by (simp only: RU_eval)
  from lru mru call before prog show ?thesis by simp
qed

text \<open>
  Claim C3 (on every reference of RU the counter of the referenced page is reset to 0 and
  the counter of every other resident page grows by 1) fails on the code.
  reference_string.txt holds 0 and then 499 times 1. Page 0 is loaded into frame 47 by the
  first reference and stays resident and valid; after the 500 references to page 1 that
  follow (the last line is read twice) the counter of frame 47 is still 0.
\<close>

theorem C3_counters_never_advance:
  "final (\<lambda>s. (frame_no (page_table s 0), valid_bit (page_table s 0),
               page_no (frame_table s 47), frame_aux (frame_table s 47), fault_rate s))
     (main_LRU (0 # replicate 499 1)) = Some (47, 1, 0, 0, 2)"
proof -
  have t: "file_references (0 # replicate 499 1) = 0 # replicate 499 1 @ [1]"
    by (simp add: file_references_def)
  show ?thesis
    unfolding main_LRU_def t by (simp only: RU_eval)
qed

text \<open>
  Claim C4, as stated for every policy, fails for RU. Started on the free list main gives
  the LRU run, RU has emptied the list after the references 0, 1, ..., 143; the next
  reference, to page 142 (valid, but frame 0 now holds page 143), pushes frame 0 back.
  With reference_string.txt holding 0, ..., 143 and then 356 times 142, the LRU run ends
  with frame 0 in the free list.
\<close>

theorem C4_RU_pushes_after_empty:
  "final free_frame_list
     (RU fresh_page_table fresh_frame_table (main_free_frame_list 2) ''LRU'' [0..143]) = Some [] \<and>
   final free_frame_list
     (RU fresh_page_table fresh_frame_table (main_free_frame_list 2) ''LRU'' ([0..143] @ [142]))
     = Some [0] \<and>
   final free_frame_list (main_LRU ([0..143] @ replicate 356 142)) = Some [0]"
proof -
  have t: "file_references ([0..143] @ replicate 356 142) = [0..143] @ replicate 356 142 @ [142]"
    by (simp add: file_references_def)
  have a: "final free_frame_list
     (RU fresh_page_table fresh_frame_table (main_free_frame_list 2) ''LRU'' [0..143]) = Some []"
    by (simp only: RU_eval)
  have b: "final free_frame_list
     (RU fresh_page_table fresh_frame_table (main_free_frame_list 2) ''LRU'' ([0..143] @ [142]))
     = Some [0]"
    by (simp only: RU_eval)
  have c: "final free_frame_list (main_LRU ([0..143] @ replicate 356 142)) = Some [0]"
    unfolding main_LRU_def t by (simp only: RU_eval)
  from a b c show ?thesis by simp
qed

text \<open>
  Claim C4 as amended. FIFO never pushes: from any state, a run of FIFO leaves a free
  list that is the old one with entries popped, so a list that is empty stays empty; and
  on an empty list a reference leaves the state as it is (a hit) or takes the frame at
  the cursor, which is recorded as the frame of the referenced page, and counts one
  fault. RU, OPT and RAN push: a reference to a page that is marked valid while its
  recorded frame holds another page pushes that recorded frame index onto the free list,
  whatever the list holds.
\<close>

theorem C4_FIFO_never_pushes_others_push:
  "(\<forall>s'. run FIFO_step (Inr s) trace = Inr s' \<longrightarrow>
      (\<exists>k. free_frame_list s' = drop k (free_frame_list s)) \<and>
      (free_frame_list s = [] \<longrightarrow> free_frame_list s' = [])) \<and>
   (\<forall>s'. free_frame_list s = [] \<and> FIFO_step s r = Inr s' \<longrightarrow>
      s' = s \<or> (evictions s' = evictions s @ [FIFOSelection s] \<and>
                 frame_no (page_table s' r) = FIFOSelection s \<and>
                 fault_rate s' = fault_rate s + 1)) \<and>
   (page_ok p \<and> valid_bit (page_table u p) \<noteq> INVALID_BIT \<and>
    frame_ok (frame_no (page_table u p)) \<and>
    page_no (frame_table u (frame_no (page_table u p))) \<noteq> p \<longrightarrow>
      (\<forall>u'. RU_step t u p = Inr u' \<longrightarrow>
         free_frame_list u' = frame_no (page_table u p) # free_frame_list u)) \<and>
   (page_ok p \<and> valid_bit (page_table v p) \<noteq> INVALID_BIT \<and>
    frame_ok (frame_no (page_table v p)) \<and>
    page_no (frame_table v (frame_no (page_table v p))) \<noteq> p \<longrightarrow>
      (\<forall>v'. OPT_step v p = Inr v' \<longrightarrow>
         free_frame_list v' = frame_no (page_table v p) # free_frame_list v)) \<and>
   (page_ok p \<and> valid_bit (page_table w p) \<noteq> INVALID_BIT \<and>
    frame_ok (frame_no (page_table w p)) \<and>
    page_no (frame_table w (frame_no (page_table w p))) \<noteq> p \<longrightarrow>
      (\<forall>w'. RAN_step rand_max rnd ref w p = Inr w' \<longrightarrow>
         free_frame_list w' = frame_no (page_table w p) # free_frame_list w))"
proof (intro conjI allI impI)
  fix s' assume "run FIFO_step (Inr s) trace = Inr s'"
  then show "\<exists>k. free_frame_list s' = drop k (free_frame_list s)"
    by (rule FIFO_run_free_list)
next
  fix s' assume r: "run FIFO_step (Inr s) trace = Inr s'" and e: "free_frame_list s = []"
  from FIFO_run_free_list[OF r] e show "free_frame_list s' = []" by auto
next
  fix s' assume "free_frame_list s = [] \<and> FIFO_step s r = Inr s'"
  then show "s' = s \<or> (evictions s' = evictions s @ [FIFOSelection s] \<and>
                 frame_no (page_table s' r) = FIFOSelection s \<and>
                 fault_rate s' = fault_rate s + 1)"
    using FIFO_step_reuses_cursor[of s r s'] by blast
next
  fix u' assume "page_ok p \<and> valid_bit (page_table u p) \<noteq> INVALID_BIT \<and>
    frame_ok (frame_no (page_table u p)) \<and>
    page_no (frame_table u (frame_no (page_table u p))) \<noteq> p" "RU_step t u p = Inr u'"
  then show "free_frame_list u' = frame_no (page_table u p) # free_frame_list u"
    using RU_step_stale_pushes[of p u t u'] by blast
next
  fix v' assume "page_ok p \<and> valid_bit (page_table v p) \<noteq> INVALID_BIT \<and>
    frame_ok (frame_no (page_table v p)) \<and>
    page_no (frame_table v (frame_no (page_table v p))) \<noteq> p" "OPT_step v p = Inr v'"
  then show "free_frame_list v' = frame_no (page_table v p) # free_frame_list v"
    using OPT_step_stale_pushes[of p v v'] by blast
next
  fix w' assume "page_ok p \<and> valid_bit (page_table w p) \<noteq> INVALID_BIT \<and>
    frame_ok (frame_no (page_table w p)) \<and>
    page_no (frame_table w (frame_no (page_table w p))) \<noteq> p"
    "RAN_step rand_max rnd ref w p = Inr w'"
  then show "free_frame_list w' = frame_no (page_table w p) # free_frame_list w"
    using RAN_step_stale_pushes[of p w rand_max rnd ref w'] by blast
qed

theorem C4_witness:
  "final free_frame_list
     (run FIFO_step
        (Inr \<lparr>page_table = fresh_page_table, frame_table = fresh_frame_table,
              free_frame_list = [], fault_rate = 0, evictions = [], FIFOSelection = 47\<rparr>)
        [5, 6]) = Some [] \<and>
   final free_frame_list
     (RU_step ''LRU''
        \<lparr>page_table = upd fresh_page_table 5 \<lparr>frame_no = 0, valid_bit = 1, page_aux = 0\<rparr>,
          frame_table = fresh_frame_table, free_frame_list = [], fault_rate = 1,
          evictions = []\<rparr> 5) = Some [0] \<and>
   final free_frame_list
     (OPT_step
        \<lparr>page_table = upd fresh_page_table 5 \<lparr>frame_no = 0, valid_bit = 1, page_aux = 0\<rparr>,
          frame_table = fresh_frame_table, free_frame_list = [], fault_rate = 1,
          evictions = [], reference_string = [5]\<rparr> 5) = Some [0] \<and>
   final free_frame_list
     (RAN_step 32767 (\<lambda>k. 5) ''RAN''
        \<lparr>page_table = upd fresh_page_table 5 \<lparr>frame_no = 0, valid_bit = 1, page_aux = 0\<rparr>,
          frame_table = fresh_frame_table, free_frame_list = [], fault_rate = 1,
          evictions = [], rand_calls = 0\<rparr> 5) = Some [0]"
proof -
  let ?s = "\<lparr>page_table = fresh_page_table, frame_table = fresh_frame_table,
             free_frame_list = [], fault_rate = 0, evictions = [], FIFOSelection = 47\<rparr>"
  let ?pt = "upd fresh_page_table 5 \<lparr>frame_no = 0, valid_bit = 1, page_aux = 0\<rparr>"
  let ?u = "\<lparr>page_table = ?pt, frame_table = fresh_frame_table, free_frame_list = [],
             fault_rate = 1, evictions = []\<rparr>"
  let ?v = "\<lparr>page_table = ?pt, frame_table = fresh_frame_table, free_frame_list = [],
             fault_rate = 1, evictions = [], reference_string = [5]\<rparr>"
  let ?w = "\<lparr>page_table = ?pt, frame_table = fresh_frame_table, free_frame_list = [],
             fault_rate = 1, evictions = [], rand_calls = 0\<rparr>"
  have p: "page_ok 5" by (simp add: page_ok_def MAX_NUM_PAGES_def)
  have b: "\<forall>k. 0 \<le> (\<lambda>k::nat. 5::int) k \<and> (\<lambda>k::nat. 5::int) k \<le> 32767" by simp
  have fs: "fifo_ok ?s"
    by (simp add: fifo_ok_def fresh_page_table_def fresh_frame_table_def INVALID_BIT_def
        frame_ok_def page_ok_def MAX_PAGE_FRAMES_def MAX_NUM_PAGES_def)
  have tu: "tables_ok ?u"
    by (simp add: tables_ok_def fresh_page_table_def fresh_frame_table_def INVALID_BIT_def
        frame_ok_def page_ok_def MAX_PAGE_FRAMES_def MAX_NUM_PAGES_def upd_def)
  have tv: "tables_ok ?v"
    by (simp add: tables_ok_def fresh_page_table_def fresh_frame_table_def INVALID_BIT_def
        frame_ok_def page_ok_def MAX_PAGE_FRAMES_def MAX_NUM_PAGES_def upd_def)
  have tw: "tables_ok ?w"
    by (simp add: tables_ok_def fresh_page_table_def fresh_frame_table_def INVALID_BIT_def
        frame_ok_def page_ok_def MAX_PAGE_FRAMES_def MAX_NUM_PAGES_def upd_def)
  have "\<forall>r \<in> set [5, 6]. page_ok r" by (simp add: page_ok_def MAX_NUM_PAGES_def)
  from run_invariant[of fifo_ok FIFO_step, OF FIFO_step_ok fs this]
  obtain s' where s': "run FIFO_step (Inr ?s) [5, 6] = Inr s'" by blast
  from RU_step_ok[OF tu p, of "''LRU''"]
  obtain u' where u': "RU_step ''LRU'' ?u 5 = Inr u'" by blast
  from OPT_step_ok[OF tv p] obtain v' where v': "OPT_step ?v 5 = Inr v'" by blast
  from RAN_step_ok[OF b tw p, of "''RAN''"]
  obtain w' where w': "RAN_step 32767 (\<lambda>k. 5) ''RAN'' ?w 5 = Inr w'" by blast
  have st: "valid_bit (?pt 5) \<noteq> INVALID_BIT \<and> frame_ok (frame_no (?pt 5)) \<and>
            page_no (fresh_frame_table (frame_no (?pt 5))) \<noteq> 5"
    by (simp add: upd_def INVALID_BIT_def frame_ok_def MAX_PAGE_FRAMES_def
        fresh_frame_table_def)
  from C4_FIFO_never_pushes_others_push
         [of ?s "[5, 6]" 5 5 ?u "''LRU''" ?v ?w 32767 "\<lambda>k. 5" "''RAN''"]
       s' u' v' w' p st
  show ?thesis
    by (simp add: final_def upd_def)
qed

text \<open>
  Claim C5 (before each routine the free list holds exactly the frame indices 0 to 47,
  and nothing carries over) fails on the code. Read front to back, the vector FIFO is
  started on holds 48 zeros and then 0, ..., 47; the vector of the second routine holds
  that and 0, ..., 47 once more; the vector of the sixth routine has 336 entries. Every
  row of the frame table is initialised to page 0, not to the value -1 that the comment
  in main gives for a frame that is not occupied.
\<close>

theorem C5_free_list_not_fresh:
  "rev (main_free_frame_list 1) = replicate 48 0 @ [0..47] \<and>
   rev (main_free_frame_list 2) = replicate 48 0 @ [0..47] @ [0..47] \<and>
   length (main_free_frame_list 6) = 336 \<and>
   page_no (fresh_frame_table 0) = 0"
  by (simp add: main_free_frame_list_num main_free_frame_list_Suc main_free_frame_list_0
      fresh_frame_table_def)

text \<open>
  Claim C6 (at every point of a run a frame is in the free list or occupied, never both)
  fails on the code. reference_string.txt holds 0, 1, ..., 47 and then 452 times 47. When
  FIFO has finished, frame 0 holds page 47, page 47 is valid and recorded in frame 0, and
  the free list still contains 0 (48 times).
\<close>

theorem C6_frame_free_and_occupied:
  "final (\<lambda>s. (0 \<in> set (free_frame_list s), page_no (frame_table s 0),
               frame_no (page_table s 47), valid_bit (page_table s 47)))
     (main_FIFO ([0..47] @ replicate 452 47)) = Some (True, 47, 0, VALID_BIT)"
proof -
  have t: "file_references ([0..47] @ replicate 452 47) = [0..47] @ replicate 452 47 @ [47]"
    by (simp add: file_references_def)
  have "final (\<lambda>s. (free_frame_list s, page_no (frame_table s 0),
               frame_no (page_table s 47), valid_bit (page_table s 47)))
     (main_FIFO ([0..47] @ replicate 452 47)) = Some (replicate 48 0, 47, 0, VALID_BIT)"
    unfolding main_FIFO_def t by (simp only: FIFO_eval)
  then show ?thesis
    by (auto simp: final_def split: sum.splits)
qed

text \<open>
  Claim C7 (over any 48 consecutive evictions the cursor of FIFO selects every frame index
  0, ..., 47 exactly once) fails on the code. reference_string.txt holds 0, 1, ..., 143
  and then 356 times 143. The first 96 references empty the free list; the 48 evictions
  that follow take the frames 47, 46, ..., 1 and then 47 again. Frame 0 is never selected:
  the cursor is reset to 47 as soon as the decrement makes it 0.
\<close>

theorem C7_FIFO_cursor_skips_frame_0:
  "final evictions (main_FIFO ([0..143] @ replicate 356 143)) = Some (rev [1..47] @ [47])"
proof -
  have t: "file_references ([0..143] @ replicate 356 143) = [0..143] @ replicate 356 143 @ [143]"
    by (simp add: file_references_def)
  show ?thesis
    unfolding main_FIFO_def t by (simp only: FIFO_eval)
qed

text \<open>
  Claim C8. \<open>rs\<close> is the vector identifyPageToRemove is given, the references from the
  current one on; OPT reads \<open>PROC_POOL_SIZE\<close> entries into it and only erases from it
  (\<open>main_OPT_reference_string\<close>), so it never holds more. For every frame, the distance
  \<open>futureref\<close> is \<open>PROC_POOL_SIZE + 100\<close> when the page of the frame does not occur in
  \<open>rs\<close>, and otherwise the index of its first occurrence, which is smaller than that
  sentinel. The victim is a frame of the table whose distance is the largest, and every
  frame with a lower index has a strictly smaller distance.
\<close>

theorem C8_victim_is_farthest_next_reference:
  assumes "length rs \<le> nat PROC_POOL_SIZE"
  shows "(\<forall>i. (page_no (ft i) \<notin> set rs \<longrightarrow> futureref ft rs i = PROC_POOL_SIZE + 100) \<and>
              (page_no (ft i) \<in> set rs \<longrightarrow>
                 0 \<le> futureref ft rs i \<and> futureref ft rs i < int (length rs) \<and>
                 rs ! nat (futureref ft rs i) = page_no (ft i) \<and>
                 (\<forall>j < nat (futureref ft rs i). rs ! j \<noteq> page_no (ft i)) \<and>
                 futureref ft rs i < PROC_POOL_SIZE + 100)) \<and>
         frame_ok (identifyPageToRemove ft rs) \<and>
         (\<forall>i. frame_ok i \<longrightarrow>
              futureref ft rs i \<le> futureref ft rs (identifyPageToRemove ft rs)) \<and>
         (\<forall>i. frame_ok i \<and> i < identifyPageToRemove ft rs \<longrightarrow>
              futureref ft rs i < futureref ft rs (identifyPageToRemove ft rs))"
proof -
  have len: "int (length rs) < PROC_POOL_SIZE + 100"
    using assms by (simp add: PROC_POOL_SIZE_def)
  have "\<forall>i. (page_no (ft i) \<notin> set rs \<longrightarrow> futureref ft rs i = PROC_POOL_SIZE + 100) \<and>
              (page_no (ft i) \<in> set rs \<longrightarrow>
                 0 \<le> futureref ft rs i \<and> futureref ft rs i < int (length rs) \<and>
                 rs ! nat (futureref ft rs i) = page_no (ft i) \<and>
                 (\<forall>j < nat (futureref ft rs i). rs ! j \<noteq> page_no (ft i)) \<and>
                 futureref ft rs i < PROC_POOL_SIZE + 100)"
    using futureref_absent[of ft _ rs] futureref_present[of ft _ rs] len by fastforce
  with identifyPageToRemove_max[of ft rs] show ?thesis by simp
qed

theorem C8_witness:
  "length [3, 1, 3, 0 :: int] \<le> nat PROC_POOL_SIZE \<and>
   identifyPageToRemove (\<lambda>i. \<lparr>page_no = i, frame_aux = 0\<rparr>) [3, 1, 3, 0] = 2 \<and>
   futureref (\<lambda>i. \<lparr>page_no = i, frame_aux = 0\<rparr>) [3, 1, 3, 0] 2 = 600 \<and>
   futureref (\<lambda>i. \<lparr>page_no = i, frame_aux = 0\<rparr>) [3, 1, 3, 0] 0 = 3 \<and>
   frame_ok (identifyPageToRemove (\<lambda>i. \<lparr>page_no = i, frame_aux = 0\<rparr>) [3, 1, 3, 0])"
proof -
  have h: "length [3, 1, 3, 0 :: int] \<le> nat PROC_POOL_SIZE"
    by (simp add: PROC_POOL_SIZE_def)
  have v: "identifyPageToRemove (\<lambda>i. \<lparr>page_no = i, frame_aux = 0\<rparr>) [3, 1, 3, 0] = 2"
    by (simp add: identifyPageToRemove_def futureref_def PROC_POOL_SIZE_def MAX_PAGE_FRAMES_def
        upto_rec1)
  from C8_victim_is_farthest_next_reference[OF h, of "\<lambda>i. \<lparr>page_no = i, frame_aux = 0\<rparr>"] h v
  show ?thesis
    by (simp add: futureref_def PROC_POOL_SIZE_def)
qed

text \<open>
  Claim C9, as stated, fails: no routine compares a trace entry with the bounds of the
  page table. The entry 1024, and the entry -1, reach \<open>page_table[reference][1]\<close>; the
  run ends in the error value of the model that stands for this access outside the array.
\<close>

theorem C9_out_of_range_entry_indexes_page_table:
  "main_FIFO [0, 1024] = Inl (PageTableOutOfBounds 1024) \<and>
   main_LRU [0, - 1] = Inl (PageTableOutOfBounds (- 1))"
  by (simp add: main_FIFO_def main_LRU_def FIFO_def RU_def file_references_def
      fresh_frame_table_zero_aux fresh_page_table_def main_free_frame_list_num
      main_free_frame_list_Suc main_free_frame_list_0 FIFO_pop RU_pop FIFO_oob RU_oob
      page_ok_def frame_ok_def MAX_NUM_PAGES_def MAX_PAGE_FRAMES_def INVALID_BIT_def upto_rec1)

text \<open>
  Claim C9 as amended. When every entry of reference_string.txt lies in
  \<open>[0, MAX_NUM_PAGES)\<close> (and \<open>rand()\<close> returns values from 0 to \<open>RAND_MAX\<close>), each of
  the six runs of main ends without any access outside the page table or the frame
  table. An entry outside that range is not rejected: every routine uses it as the index
  of its first access to the page table.
\<close>

theorem C9_in_range_trace_stays_in_bounds:
  assumes "\<forall>r \<in> set tokens. page_ok r" and "\<forall>k. 0 \<le> rnd k \<and> rnd k \<le> rand_max"
  shows "(\<exists>s. main_FIFO tokens = Inr s) \<and> (\<exists>s. main_LRU tokens = Inr s) \<and>
         (\<exists>s. main_MRU tokens = Inr s) \<and> (\<exists>s. main_OPT tokens = Inr s) \<and>
         (\<exists>s. main_RAN rand_max rnd tokens = Inr s) \<and>
         (\<exists>s. main_RAN2 rand_max rnd tokens = Inr s) \<and>
         (\<forall>s r. \<not> page_ok r \<longrightarrow>
            FIFO_step s r = Inl (PageTableOutOfBounds r)) \<and>
         (\<forall>t s r. \<not> page_ok r \<longrightarrow>
            RU_step t s r = Inl (PageTableOutOfBounds r)) \<and>
         (\<forall>s r. \<not> page_ok r \<longrightarrow>
            OPT_step s r = Inl (PageTableOutOfBounds r)) \<and>
         (\<forall>ref s r. \<not> page_ok r \<longrightarrow>
            RAN_step rand_max rnd ref s r = Inl (PageTableOutOfBounds r))"
proof -
  have t: "\<forall>r \<in> set (file_references tokens). page_ok r"
    using assms(1) by (rule file_references_ok)
  have fifo: "\<exists>s. main_FIFO tokens = Inr s"
    unfolding main_FIFO_def FIFO_def
    using run_invariant[of fifo_ok FIFO_step, OF FIFO_step_ok fresh_fifo_ok t] by blast
  have lru: "\<exists>s. main_LRU tokens = Inr s"
    unfolding main_LRU_def RU_def
    using run_invariant[of tables_ok "RU_step ''LRU''", OF RU_step_ok fresh_tables_ok t]
    by blast
  have mru: "\<exists>s. main_MRU tokens = Inr s"
    unfolding main_MRU_def RU_def
    using run_invariant[of tables_ok "RU_step ''MRU''", OF RU_step_ok fresh_tables_ok t]
    by blast
  have opt: "\<exists>s. main_OPT tokens = Inr s"
    unfolding main_OPT_def OPT_def
    using run_invariant[of tables_ok OPT_step, OF OPT_step_ok fresh_tables_ok t] by blast
  have ran: "\<exists>s. main_RAN rand_max rnd tokens = Inr s"
    unfolding main_RAN_def RAN_def
    using run_invariant[of tables_ok "RAN_step rand_max rnd ''RAN''",
        OF RAN_step_ok[OF assms(2)] fresh_tables_ok t] by blast
  have ran2: "\<exists>s. main_RAN2 rand_max rnd tokens = Inr s"
    unfolding main_RAN2_def RAN_def
    using run_invariant[of tables_ok "RAN_step rand_max rnd ''RAN2''",
        OF RAN_step_ok[OF assms(2)] fresh_tables_ok t] by blast
  from fifo lru mru opt ran ran2 show ?thesis
    by (simp add: FIFO_oob RU_oob OPT_oob RAN_oob)
qed

theorem C9_in_range_trace_witness:
  "(\<exists>s. main_FIFO [0, 1, 0] = Inr s) \<and> (\<exists>s. main_LRU [0, 1, 0] = Inr s) \<and>
   (\<exists>s. main_MRU [0, 1, 0] = Inr s) \<and> (\<exists>s. main_OPT [0, 1, 0] = Inr s) \<and>
   (\<exists>s. main_RAN 32767 (\<lambda>k. 5) [0, 1, 0] = Inr s) \<and>
   (\<exists>s. main_RAN2 32767 (\<lambda>k. 5) [0, 1, 0] = Inr s) \<and>
   FIFO_step \<lparr>page_table = fresh_page_table, frame_table = fresh_frame_table,
              free_frame_list = [], fault_rate = 0, evictions = [],
              FIFOSelection = 47\<rparr> 1024 = Inl (PageTableOutOfBounds 1024)"
proof -
  have a: "\<forall>r \<in> set [0, 1, 0]. page_ok r"
    by (simp add: page_ok_def MAX_NUM_PAGES_def)
  have b: "\<forall>k. 0 \<le> (\<lambda>k::nat. 5::int) k \<and> (\<lambda>k::nat. 5::int) k \<le> 32767" by simp
  have c: "\<not> page_ok 1024" by (simp add: page_ok_def MAX_NUM_PAGES_def)
  from C9_in_range_trace_stays_in_bounds[OF a b] c show ?thesis by simp
qed

text \<open>
  Claim C10, read for the two runs of the program, fails: main starts the LRU run on the
  free list after two fills and the MRU run on the list after three. With
  reference_string.txt holding 0, 1, ..., 96 and then 403 times 48, the LRU run gives
  page 96 frame 0 and counts 97 faults; the MRU run gives page 96 frame 47, where page 48
  is recorded, and counts 98.
\<close>

theorem C10_main_LRU_and_MRU_differ:
  "faults (main_LRU ([0..96] @ replicate 403 48)) = Some 97 \<and>
   faults (main_MRU ([0..96] @ replicate 403 48)) = Some 98"
proof -
  have t: "file_references ([0..96] @ replicate 403 48) = [0..96] @ replicate 403 48 @ [48]"
    by (simp add: file_references_def)
  have lru: "faults (main_LRU ([0..96] @ replicate 403 48)) = Some 97"
    unfolding main_LRU_def t by (simp only: RU_eval)
  have mru: "faults (main_MRU ([0..96] @ replicate 403 48)) = Some 98"
    unfolding main_MRU_def t by (simp only: RU_eval)
  from lru mru show ?thesis by (rule conjI)
qed

text \<open>
  Claim C10 as amended. When every counter of the frame table is 0 at the start, as
  main's initialisation leaves it, RU called with type "LRU" and RU called with type
  "MRU" on the same page table, frame table, free list and trace end in the same result:
  the same tables, free list, fault count and sequence of evicted frames. After every
  prefix of the trace all counters are 0 again and every frame evicted so far is frame 0.
\<close>

theorem C10_LRU_and_MRU_runs_identical:
  assumes "aux_zero ft"
  shows "RU pt ft fl ''LRU'' trace = RU pt ft fl ''MRU'' trace \<and>
         (\<forall>n s. RU pt ft fl ''LRU'' (take n trace) = Inr s \<longrightarrow>
            aux_zero (frame_table s) \<and> set (evictions s) \<subseteq> {0})"
proof
  show "RU pt ft fl ''LRU'' trace = RU pt ft fl ''MRU'' trace"
    unfolding RU_def using assms by (intro RU_run_type_independent) simp
next
  show "\<forall>n s. RU pt ft fl ''LRU'' (take n trace) = Inr s \<longrightarrow>
            aux_zero (frame_table s) \<and> set (evictions s) \<subseteq> {0}"
  proof (intro allI impI)
    fix n s
    assume r: "RU pt ft fl ''LRU'' (take n trace) = Inr s"
    have "aux_zero (frame_table \<lparr>page_table = pt, frame_table = ft, free_frame_list = fl,
             fault_rate = 0, evictions = []\<rparr>)" using assms by simp
    from RU_run_keeps_zero[OF this r[unfolded RU_def]]
    show "aux_zero (frame_table s) \<and> set (evictions s) \<subseteq> {0}" by simp
  qed
qed

theorem C10_witness:
  "aux_zero fresh_frame_table \<and>
   RU fresh_page_table fresh_frame_table (main_free_frame_list 2) ''LRU'' [0, 1, 0] =
   RU fresh_page_table fresh_frame_table (main_free_frame_list 2) ''MRU'' [0, 1, 0]"
proof -
  have h: "aux_zero fresh_frame_table"
    by (simp add: fresh_frame_table_zero_aux aux_zero_zero_aux)
  from C10_LRU_and_MRU_runs_identical[OF h] h show ?thesis by simp
qed

end
